theory Spec2Isabelle
  imports Complex_Main
begin

section \<open>Errors and Python list access\<close>

text \<open>
  The notebooks are Python scripts over the MXNet array library. A raised exception is a
  value of type \<open>error\<close>; a computation that may raise returns \<open>error + 'a\<close> with the
  exception on the left.
\<close>

datatype error =
    IndexError
  | AttributeError string
  | TypeError
  | ValueError
  | ZeroDivisionError
  | MXNetError string

definition py_get :: "'a list \<Rightarrow> nat \<Rightarrow> error + 'a" where
  \<comment> \<open>\<open>xs[i]\<close> for a non-negative index: out of range raises IndexError.\<close>
  "py_get xs i = (if i < length xs then Inr (xs ! i) else Inl IndexError)"

section \<open>Softmax regression from scratch\<close>

subsection \<open>Two-dimensional arrays of numbers\<close>







subsection \<open>Classification accuracy\<close>

definition argmax :: "real list \<Rightarrow> nat" where
  \<comment> \<open>Index of the largest entry of a row; the first one when the maximum is repeated.\<close>
  "argmax xs = foldl (\<lambda>best j. if xs ! best < xs ! j then j else best) 0 [1..<length xs]"






section \<open>Single shot multibox detection\<close>

subsection \<open>The anchor-box schedule\<close>

definition sizes :: "real list list" where
  "sizes = [[0.2, 0.272], [0.37, 0.447], [0.54, 0.619], [0.71, 0.79], [0.88, 0.961]]"

definition ratios :: "real list list" where
  "ratios = replicate 5 [1, 2, 0.5]"

definition num_anchors :: nat where
  "num_anchors = length (sizes ! 0) + length (ratios ! 0) - 1"

definition geometric_mean_of_next :: "nat \<Rightarrow> bool" where
  \<comment> \<open>The relation \<open>sizes[i][1] = sqrt(sizes[i][0] * sizes[i+1][0])\<close>, read with the
      three decimals of the table: the entry is the square root rounded, so it is off
      by at most \<open>0.0005\<close>. Reading a scale the table does not have raises.\<close>
  "geometric_mean_of_next i =
     (case (py_get sizes i, py_get sizes (i + 1)) of
        (Inr [s0, s1], Inr (n0 # _)) \<Rightarrow> \<bar>s1 - sqrt (s0 * n0)\<bar> \<le> 5 / 10 ^ 4
      | _ \<Rightarrow> False)"

definition geometric_mean_with :: "nat \<Rightarrow> real \<Rightarrow> bool" where
  \<comment> \<open>The same relation with the next size given: the schedule of the notebook divides
      the interval from \<open>0.2\<close> to \<open>1.05\<close> into five parts, and \<open>1.05\<close> is the size
      after the last scale.\<close>
  "geometric_mean_with i n0 =
     (case py_get sizes i of
        Inr [s0, s1] \<Rightarrow> \<bar>s1 - sqrt (s0 * n0)\<bar> \<le> 5 / 10 ^ 4
      | _ \<Rightarrow> False)"


subsection \<open>Calls into the array library\<close>

text \<open>
  The detector is glue around the array and layer library: every line of it is a call
  into the library. The model keeps the calls as data. A program runs against an
  environment that answers each call, with an array or with an exception, and the state
  it threads is the transcript of the calls answered so far; the answer may depend on
  that transcript, which stands for whatever state the library keeps (parameters,
  gradients, the device). \<open>'l\<close> is the type of layer objects, \<open>'x\<close> the type of arrays.
\<close>

datatype dim_spec = Keep | Infer | Dim nat
  \<comment> \<open>The entries of a \<open>reshape\<close> target that the notebook uses: \<open>0\<close> keeps the
      dimension of the input, \<open>-1\<close> is inferred from the rest, a positive number is
      the dimension itself.\<close>

datatype ('l, 'x) call =
    Forward 'l 'x
  | MultiBoxPrior 'x "real list" "real list"
  | Transpose 'x "nat list"
  | Flatten 'x
  | Concat "'x list" nat
  | Reshape 'x "dim_spec list"
  | AsInContext 'x
  | Softmax 'x
  | MultiBoxDetection 'x 'x 'x
  | GetItem 'x nat
  | Take 'x nat "nat list"
  | AsScalar 'x

record ('c, 'x) env =
  answer :: "'c list \<Rightarrow> 'c \<Rightarrow> error + 'x"
  scalar :: "'c list \<Rightarrow> 'c \<Rightarrow> error + real"
  triple :: "'c list \<Rightarrow> 'c \<Rightarrow> error + 'x \<times> 'x \<times> 'x"
  effect :: "'c list \<Rightarrow> 'c \<Rightarrow> error option"
  len :: "'x \<Rightarrow> nat"
  size_of :: "'x \<Rightarrow> nat"

type_synonym ('c, 'a) prog = "'c list \<Rightarrow> error + 'a \<times> 'c list"

definition ret :: "'a \<Rightarrow> ('c, 'a) prog" where
  "ret v = (\<lambda>h. Inr (v, h))"

definition raise :: "error \<Rightarrow> ('c, 'a) prog" where
  "raise e = (\<lambda>h. Inl e)"

definition and_then :: "('c, 'a) prog \<Rightarrow> ('a \<Rightarrow> ('c, 'b) prog) \<Rightarrow> ('c, 'b) prog" where
  \<comment> \<open>Sequencing: an exception of the first part ends the program with that exception.\<close>
  "and_then m f = (\<lambda>h. case m h of Inl e \<Rightarrow> Inl e | Inr (v, h') \<Rightarrow> f v h')"

definition lift :: "error + 'a \<Rightarrow> ('c, 'a) prog" where
  "lift r = (case r of Inl e \<Rightarrow> raise e | Inr v \<Rightarrow> ret v)"

definition call :: "('c, 'x) env \<Rightarrow> 'c \<Rightarrow> ('c, 'x) prog" where
  \<comment> \<open>A library call that returns an array.\<close>
  "call E c = (\<lambda>h. case answer E h c of Inl e \<Rightarrow> Inl e | Inr v \<Rightarrow> Inr (v, h @ [c]))"

definition call_scalar :: "('c, 'x) env \<Rightarrow> 'c \<Rightarrow> ('c, real) prog" where
  \<comment> \<open>A library call that returns a Python number.\<close>
  "call_scalar E c = (\<lambda>h. case scalar E h c of Inl e \<Rightarrow> Inl e | Inr v \<Rightarrow> Inr (v, h @ [c]))"

definition call_triple :: "('c, 'x) env \<Rightarrow> 'c \<Rightarrow> ('c, 'x \<times> 'x \<times> 'x) prog" where
  \<comment> \<open>A library call that returns three arrays.\<close>
  "call_triple E c = (\<lambda>h. case triple E h c of Inl e \<Rightarrow> Inl e | Inr v \<Rightarrow> Inr (v, h @ [c]))"

definition call_effect :: "('c, 'x) env \<Rightarrow> 'c \<Rightarrow> ('c, unit) prog" where
  \<comment> \<open>A library call that returns nothing.\<close>
  "call_effect E c = (\<lambda>h. case effect E h c of Some e \<Rightarrow> Inl e | None \<Rightarrow> Inr ((), h @ [c]))"

definition asscalar :: "(('l, 'x) call, 'x) env \<Rightarrow> 'x \<Rightarrow> (('l, 'x) call, real) prog" where
  \<comment> \<open>\<open>x.asscalar()\<close>\<close>
  "asscalar E x = call_scalar E (AsScalar x)"

fun for_each :: "'i list \<Rightarrow> ('i \<Rightarrow> 's \<Rightarrow> ('c, 's) prog) \<Rightarrow> 's \<Rightarrow> ('c, 's) prog" where
  \<comment> \<open>\<open>for i in is: s = body(i, s)\<close>\<close>
  "for_each [] body s = ret s"
| "for_each (i # is) body s = and_then (body i s) (for_each is body)"

fun map_prog :: "('a \<Rightarrow> ('c, 'b) prog) \<Rightarrow> 'a list \<Rightarrow> ('c, 'b list) prog" where
  \<comment> \<open>\<open>[f(p) for p in ps]\<close>\<close>
  "map_prog f [] = ret []"
| "map_prog f (p # ps) = and_then (f p) (\<lambda>v. and_then (map_prog f ps) (\<lambda>vs. ret (v # vs)))"

definition yields :: "('c, 'a) prog \<Rightarrow> 'a \<Rightarrow> bool" where
  \<comment> \<open>From every transcript the program returns \<open>v\<close>.\<close>
  "yields m v = (\<forall>tr. \<exists>tr'. m tr = Inr (v, tr'))"

subsection \<open>Layers\<close>

text \<open>
  A layer object of the notebook is one of the library's layers with the arguments the
  notebook passes, or a \<open>Sequential\<close> container of layers. \<open>Conv2D c k p\<close> has \<open>c\<close> output
  channels, kernel size \<open>k\<close> and padding \<open>p\<close> (stride 1); \<open>MaxPool2D k\<close> has pool size
  \<open>k\<close>, and its stride is the pool size.
\<close>

datatype block =
    Conv2D nat nat nat
  | BatchNorm nat
  | Activation string
  | MaxPool2D nat
  | GlobalMaxPool2D
  | Sequential "block list"

definition add :: "block \<Rightarrow> block list \<Rightarrow> block" where
  \<comment> \<open>\<open>blk.add(l1, l2, ...)\<close> on a \<open>Sequential\<close>, returning the container.\<close>
  "add blk ls = (case blk of Sequential bs \<Rightarrow> Sequential (bs @ ls) | _ \<Rightarrow> blk)"

definition cls_predictor :: "nat \<Rightarrow> nat \<Rightarrow> block" where
  "cls_predictor num_anchors' num_classes = Conv2D (num_anchors' * (num_classes + 1)) 3 1"

definition bbox_predictor :: "nat \<Rightarrow> block" where
  "bbox_predictor num_anchors' = Conv2D (num_anchors' * 4) 3 1"

definition forward :: "(('l, 'x) call, 'x) env \<Rightarrow> 'x \<Rightarrow> 'l \<Rightarrow> (('l, 'x) call, 'x) prog" where
  \<comment> \<open>\<open>block.initialize(); return block(x)\<close>: a first call of a fresh layer.\<close>
  "forward E x blk = call E (Forward blk x)"

definition flatten_pred :: "(('l, 'x) call, 'x) env \<Rightarrow> 'x \<Rightarrow> (('l, 'x) call, 'x) prog" where
  "flatten_pred E pred =
     and_then (call E (Transpose pred [0, 2, 3, 1])) (\<lambda>t. call E (Flatten t))"

definition concat_preds :: "(('l, 'x) call, 'x) env \<Rightarrow> 'x list \<Rightarrow> (('l, 'x) call, 'x) prog" where
  "concat_preds E preds =
     and_then (map_prog (flatten_pred E) preds) (\<lambda>fs. call E (Concat fs 1))"

definition down_sample_blk :: "nat \<Rightarrow> block" where
  "down_sample_blk num_channels =
     (let blk = Sequential [];
          blk = fold (\<lambda>_ blk. add blk [Conv2D num_channels 3 1, BatchNorm num_channels,
                                        Activation ''relu'']) [0..<2] blk
      in add blk [MaxPool2D 2])"

definition base_net :: block where
  "base_net =
     (let blk = Sequential []
      in fold (\<lambda>num_filters blk. add blk [down_sample_blk num_filters]) [16, 32, 64] blk)"

definition get_blk :: "nat \<Rightarrow> block" where
  "get_blk i =
     (if i = 0 then base_net
      else if i = 4 then GlobalMaxPool2D
      else down_sample_blk 128)"

definition blk_forward ::
  "(('l, 'x) call, 'x) env \<Rightarrow> 'x \<Rightarrow> 'l \<Rightarrow> real list \<Rightarrow> real list \<Rightarrow> 'l \<Rightarrow> 'l
     \<Rightarrow> (('l, 'x) call, 'x \<times> 'x \<times> 'x \<times> 'x) prog" where
  "blk_forward E X blk size' ratio cls_predictor' bbox_predictor' =
     and_then (call E (Forward blk X)) (\<lambda>Y.
     and_then (call E (MultiBoxPrior Y size' ratio)) (\<lambda>anchors.
     and_then (call E (Forward cls_predictor' Y)) (\<lambda>cls_preds.
     and_then (call E (Forward bbox_predictor' Y)) (\<lambda>bbox_preds.
     ret (Y, anchors, cls_preds, bbox_preds)))))"

subsection \<open>The complete model\<close>

text \<open>
  \<open>TinySSD\<close> keeps its layers as attributes set and read by name. The object is its
  number of classes and the dictionary of the attributes set with \<open>setattr\<close>.
\<close>

record 'l TinySSD =
  num_classes :: nat
  attrs :: "string \<rightharpoonup> 'l"

definition setattr :: "'l TinySSD \<Rightarrow> string \<Rightarrow> 'l \<Rightarrow> 'l TinySSD" where
  "setattr self name v = self\<lparr>attrs := (attrs self)(name \<mapsto> v)\<rparr>"

definition getattr :: "'l TinySSD \<Rightarrow> string \<Rightarrow> error + 'l" where
  "getattr self name =
     (case attrs self name of None \<Rightarrow> Inl (AttributeError name) | Some v \<Rightarrow> Inr v)"

definition digit :: "nat \<Rightarrow> char" where
  "digit d = ''0123456789'' ! d"

fun str_of_nat :: "nat \<Rightarrow> string" where
  \<comment> \<open>\<open>'%d' % n\<close>\<close>
  "str_of_nat n = (if n < 10 then [digit n] else str_of_nat (n div 10) @ [digit (n mod 10)])"

definition TinySSD_init :: "nat \<Rightarrow> block TinySSD" where
  "TinySSD_init num_classes' =
     fold (\<lambda>i self.
            let self = setattr self (''blk_'' @ str_of_nat i) (get_blk i);
                self = setattr self (''cls_'' @ str_of_nat i)
                         (cls_predictor num_anchors num_classes');
                self = setattr self (''bbox_'' @ str_of_nat i) (bbox_predictor num_anchors)
            in self)
       [0..<5] \<lparr>num_classes = num_classes', attrs = Map.empty\<rparr>"

definition all_set :: "'x option list \<Rightarrow> error + 'x list" where
  \<comment> \<open>Unpacking a list into the arguments of a library call: an entry still \<open>None\<close>
      is not an array.\<close>
  "all_set xs = (if list_all (\<lambda>x. x \<noteq> None) xs then Inr (map the xs) else Inl TypeError)"

definition TinySSD_forward_body ::
  "(('l, 'x) call, 'x) env \<Rightarrow> 'l TinySSD \<Rightarrow> nat
     \<Rightarrow> 'x \<times> 'x option list \<times> 'x option list \<times> 'x option list
     \<Rightarrow> (('l, 'x) call, 'x \<times> 'x option list \<times> 'x option list \<times> 'x option list) prog"
  where
  \<comment> \<open>The body of the loop of \<open>forward\<close>, on the variables the loop assigns.\<close>
  "TinySSD_forward_body E self i = (\<lambda>(X, anchors, cls_preds, bbox_preds).
     and_then (lift (getattr self (''blk_'' @ str_of_nat i))) (\<lambda>blk.
     and_then (lift (py_get sizes i)) (\<lambda>size'.
     and_then (lift (py_get ratios i)) (\<lambda>ratio.
     and_then (lift (getattr self (''cls_'' @ str_of_nat i))) (\<lambda>cls.
     and_then (lift (getattr self (''bbox_'' @ str_of_nat i))) (\<lambda>bbox.
     and_then (blk_forward E X blk size' ratio cls bbox) (\<lambda>(Y, a, c, b).
     ret (Y, anchors[i := Some a], cls_preds[i := Some c], bbox_preds[i := Some b]))))))))"

definition TinySSD_forward ::
  "(('l, 'x) call, 'x) env \<Rightarrow> 'l TinySSD \<Rightarrow> 'x \<Rightarrow> (('l, 'x) call, 'x \<times> 'x \<times> 'x) prog"
  where
  "TinySSD_forward E self X =
     and_then
       (for_each [0..<5] (TinySSD_forward_body E self)
          (X, replicate 5 None, replicate 5 None, replicate 5 None))
       (\<lambda>(X, anchors, cls_preds, bbox_preds).
          and_then (lift (all_set anchors)) (\<lambda>al.
          and_then (call E (Concat al 1)) (\<lambda>anchors'.
          and_then (lift (all_set cls_preds)) (\<lambda>cl.
          and_then (concat_preds E cl) (\<lambda>flat.
          and_then (call E (Reshape flat [Keep, Infer, Dim (num_classes self + 1)])) (\<lambda>cls_preds'.
          and_then (lift (all_set bbox_preds)) (\<lambda>bl.
          and_then (concat_preds E bl) (\<lambda>bbox_preds'.
          ret (anchors', cls_preds', bbox_preds')))))))))"

subsection \<open>Prediction\<close>

definition keep_row ::
  "(('l, 'x) call, 'x) env \<Rightarrow> 'x \<Rightarrow> nat \<Rightarrow> nat list \<Rightarrow> (('l, 'x) call, nat list) prog" where
  \<comment> \<open>One step of the comprehension below: \<open>row = out[i]\<close>, and \<open>i\<close> is kept when
      \<open>row[0].asscalar() != -1\<close>.\<close>
  "keep_row E out i idx =
     and_then (call E (GetItem out i)) (\<lambda>row.
     and_then (call E (GetItem row 0)) (\<lambda>cls.
     and_then (asscalar E cls) (\<lambda>v.
     ret (if v \<noteq> - 1 then idx @ [i] else idx))))"

definition kept_rows :: "(('l, 'x) call, 'x) env \<Rightarrow> 'x \<Rightarrow> (('l, 'x) call, nat list) prog" where
  \<comment> \<open>\<open>[i for i, row in enumerate(out) if row[0].asscalar() != -1]\<close>: iterating an array
      reads \<open>out[0]\<close>, \<open>out[1]\<close>, ... up to its length.\<close>
  "kept_rows E out = for_each [0..<len E out] (keep_row E out) []"

definition predict ::
  "(('l, 'x) call, 'x) env \<Rightarrow> 'l TinySSD \<Rightarrow> 'x \<Rightarrow> (('l, 'x) call, 'x) prog" where
  \<comment> \<open>\<open>net\<close> is the trained \<open>TinySSD\<close> of the notebook.\<close>
  "predict E net X =
     and_then (call E (AsInContext X)) (\<lambda>X'.
     and_then (TinySSD_forward E net X') (\<lambda>(anchors, cls_preds, bbox_preds).
     and_then (call E (Softmax cls_preds)) (\<lambda>sm.
     and_then (call E (Transpose sm [0, 2, 1])) (\<lambda>cls_probs.
     and_then (call E (MultiBoxDetection cls_probs bbox_preds anchors)) (\<lambda>output.
     and_then (call E (GetItem output 0)) (\<lambda>out0.
     and_then (kept_rows E out0) (\<lambda>idx.
     call E (Take output 0 idx))))))))"

subsection \<open>The model with its layers in an ordered collection\<close>

text \<open>
  The same detector with the fifteen layers held in a list of five triples (block, class
  predictor, box predictor) instead of named attributes; the forward pass goes through
  the list in order and collects the outputs of the scales in lists.
\<close>

record 'l OrderedSSD =
  o_num_classes :: nat
  heads :: "('l \<times> 'l \<times> 'l) list"

definition ordered_forward_body ::
  "(('l, 'x) call, 'x) env \<Rightarrow> nat \<times> 'l \<times> 'l \<times> 'l
     \<Rightarrow> 'x \<times> 'x list \<times> 'x list \<times> 'x list
     \<Rightarrow> (('l, 'x) call, 'x \<times> 'x list \<times> 'x list \<times> 'x list) prog" where
  "ordered_forward_body E = (\<lambda>(i, blk, cls, bbox) (X, anchors, cls_preds, bbox_preds).
     and_then (lift (py_get sizes i)) (\<lambda>size'.
     and_then (lift (py_get ratios i)) (\<lambda>ratio.
     and_then (blk_forward E X blk size' ratio cls bbox) (\<lambda>(Y, a, c, b).
     ret (Y, anchors @ [a], cls_preds @ [c], bbox_preds @ [b])))))"

definition ordered_forward ::
  "(('l, 'x) call, 'x) env \<Rightarrow> 'l OrderedSSD \<Rightarrow> 'x \<Rightarrow> (('l, 'x) call, 'x \<times> 'x \<times> 'x) prog"
  where
  "ordered_forward E model X =
     and_then
       (for_each (enumerate 0 (heads model)) (ordered_forward_body E) (X, [], [], []))
       (\<lambda>(X, anchors, cls_preds, bbox_preds).
          and_then (call E (Concat anchors 1)) (\<lambda>anchors'.
          and_then (concat_preds E cls_preds) (\<lambda>flat.
          and_then (call E (Reshape flat [Keep, Infer, Dim (o_num_classes model + 1)])) (\<lambda>cls_preds'.
          and_then (concat_preds E bbox_preds) (\<lambda>bbox_preds'.
          ret (anchors', cls_preds', bbox_preds'))))))"

definition head_of :: "'l TinySSD \<Rightarrow> nat \<Rightarrow> ('l \<times> 'l \<times> 'l) option" where
  "head_of self i =
     (case (attrs self (''blk_'' @ str_of_nat i), attrs self (''cls_'' @ str_of_nat i),
            attrs self (''bbox_'' @ str_of_nat i)) of
        (Some blk, Some cls, Some bbox) \<Rightarrow> Some (blk, cls, bbox)
      | _ \<Rightarrow> None)"

definition as_ordered :: "'l TinySSD \<Rightarrow> 'l OrderedSSD option" where
  \<comment> \<open>The ordered model that holds the layers of \<open>self\<close>, when \<open>self\<close> has all fifteen.\<close>
  "as_ordered self =
     (let hs = map (head_of self) [0..<5]
      in if list_all (\<lambda>h. h \<noteq> None) hs
         then Some \<lparr>o_num_classes = num_classes self, heads = map the hs\<rparr>
         else None)"

definition pad :: "'x \<times> 'x list \<times> 'x list \<times> 'x list
    \<Rightarrow> 'x \<times> 'x option list \<times> 'x option list \<times> 'x option list" where
  \<comment> \<open>The variables of the loop of \<open>TinySSD.forward\<close> that correspond to the variables of
      the loop of the ordered model: the lists collected so far, then \<open>None\<close> up to five.\<close>
  "pad = (\<lambda>(X, a, c, b). (X, map Some a @ replicate (5 - length a) None,
            map Some c @ replicate (5 - length c) None, map Some b @ replicate (5 - length b) None))"

subsection \<open>The library on shapes\<close>

text \<open>
  What each library call does to the shape of its arguments, as the library documents
  it. A shape is the list of the dimensions, all positive. A call the library rejects
  returns its exception.
\<close>

type_synonym shape = "nat list"

definition valid_shape :: "shape \<Rightarrow> bool" where
  "valid_shape s = list_all (\<lambda>d. 0 < d) s"

definition bad_shape :: "string \<Rightarrow> error + 'a" where
  "bad_shape what = Inl (MXNetError what)"

fun block_shape :: "block \<Rightarrow> shape \<Rightarrow> error + shape"
  and blocks_shape :: "block list \<Rightarrow> shape \<Rightarrow> error + shape" where
  "block_shape (Conv2D c k p) s =
     (case s of
        [n, ci, h, w] \<Rightarrow>
          if valid_shape s \<and> 0 < c \<and> 0 < k \<and> k \<le> h + 2 * p \<and> k \<le> w + 2 * p
          then Inr [n, c, h + 2 * p - k + 1, w + 2 * p - k + 1]
          else bad_shape ''Conv2D''
      | _ \<Rightarrow> bad_shape ''Conv2D'')"
| "block_shape (BatchNorm c) s =
     (case s of
        n # ci # rest \<Rightarrow>
          if valid_shape s \<and> (c = 0 \<or> ci = c) then Inr s else bad_shape ''BatchNorm''
      | _ \<Rightarrow> bad_shape ''BatchNorm'')"
| "block_shape (Activation a) s =
     (if valid_shape s \<and> a \<in> set [''relu'', ''sigmoid'', ''tanh'', ''softrelu'', ''softsign'']
      then Inr s else bad_shape ''Activation'')"
| "block_shape (MaxPool2D k) s =
     (case s of
        [n, c, h, w] \<Rightarrow>
          if valid_shape s \<and> 0 < k \<and> k \<le> h \<and> k \<le> w
          then Inr [n, c, (h - k) div k + 1, (w - k) div k + 1]
          else bad_shape ''MaxPool2D''
      | _ \<Rightarrow> bad_shape ''MaxPool2D'')"
| "block_shape GlobalMaxPool2D s =
     (case s of
        [n, c, h, w] \<Rightarrow> if valid_shape s then Inr [n, c, 1, 1] else bad_shape ''GlobalMaxPool2D''
      | _ \<Rightarrow> bad_shape ''GlobalMaxPool2D'')"
| "block_shape (Sequential bs) s = blocks_shape bs s"
| "blocks_shape [] s = Inr s"
| "blocks_shape (b # bs) s =
     (case block_shape b s of Inl e \<Rightarrow> Inl e | Inr s' \<Rightarrow> blocks_shape bs s')"

definition prior_shape :: "shape \<Rightarrow> real list \<Rightarrow> real list \<Rightarrow> error + shape" where
  \<comment> \<open>\<open>MultiBoxPrior\<close>: one set of anchor boxes for the whole batch, with
      \<open>len(sizes) + len(ratios) - 1\<close> boxes of four coordinates for each cell of the
      feature map.\<close>
  "prior_shape s sizes' ratios' =
     (case s of
        [n, c, h, w] \<Rightarrow>
          if valid_shape s \<and> sizes' \<noteq> [] \<and> ratios' \<noteq> []
          then Inr [1, h * w * (length sizes' + length ratios' - 1), 4]
          else bad_shape ''MultiBoxPrior''
      | _ \<Rightarrow> bad_shape ''MultiBoxPrior'')"

definition transpose_shape :: "shape \<Rightarrow> nat list \<Rightarrow> error + shape" where
  \<comment> \<open>The axes are a permutation of the axes of the array; axis \<open>j\<close> of the result is
      axis \<open>axes[j]\<close> of the argument.\<close>
  "transpose_shape s axes =
     (if valid_shape s \<and> length axes = length s \<and> list_all (\<lambda>d. d \<in> set axes) [0..<length s]
      then Inr (map (\<lambda>a. s ! a) axes)
      else bad_shape ''transpose'')"

definition flatten_shape :: "shape \<Rightarrow> error + shape" where
  \<comment> \<open>All the axes after the first collapse into one.\<close>
  "flatten_shape s =
     (case s of
        [] \<Rightarrow> bad_shape ''flatten''
      | d # ds \<Rightarrow> if valid_shape s then Inr [d, prod_list ds] else bad_shape ''flatten'')"

definition concat_shape :: "shape list \<Rightarrow> nat \<Rightarrow> error + shape" where
  \<comment> \<open>At least one array; the arrays agree in every dimension but \<open>axis\<close>.\<close>
  "concat_shape ss axis =
     (case ss of
        [] \<Rightarrow> bad_shape ''concat''
      | s0 # rest \<Rightarrow>
          if list_all valid_shape ss \<and> axis < length s0 \<and>
             list_all (\<lambda>s. length s = length s0 \<and> s[axis := 0] = s0[axis := 0]) rest
          then Inr (s0[axis := sum_list (map (\<lambda>s. s ! axis) ss)])
          else bad_shape ''concat'')"

definition reshape_shape :: "shape \<Rightarrow> dim_spec list \<Rightarrow> error + shape" where
  \<comment> \<open>At most one dimension is inferred, and the number of entries stays the same.\<close>
  "reshape_shape s spec =
     (let dims = map (\<lambda>(i, d). case d of Keep \<Rightarrow> if i < length s then Some (s ! i) else Some 0
                                  | Dim n \<Rightarrow> Some n
                                  | Infer \<Rightarrow> None) (enumerate 0 spec);
          known = prod_list (map (\<lambda>d. case d of None \<Rightarrow> 1 | Some n \<Rightarrow> n) dims);
          inferred = length (filter (\<lambda>d. d = None) dims);
          total = prod_list s
      in if valid_shape s \<and> inferred = 0 \<and> known = total then Inr (map the dims)
         else if valid_shape s \<and> inferred = 1 \<and> 0 < known \<and> total mod known = 0
         then Inr (map (\<lambda>d. case d of None \<Rightarrow> total div known | Some n \<Rightarrow> n) dims)
         else bad_shape ''reshape'')"

definition detection_shape :: "shape \<Rightarrow> shape \<Rightarrow> shape \<Rightarrow> error + shape" where
  \<comment> \<open>\<open>MultiBoxDetection\<close>: class probabilities \<open>(n, classes + 1, a)\<close>, offsets
      \<open>(n, 4 a)\<close> and anchors \<open>(1, a, 4)\<close> give one row of six numbers for each anchor.\<close>
  "detection_shape cls_probs bbox_preds anchors =
     (case (cls_probs, bbox_preds, anchors) of
        ([n, c, a], [n', a4], [one, a', four]) \<Rightarrow>
          if valid_shape cls_probs \<and> n' = n \<and> a4 = a * 4 \<and> one = 1 \<and> a' = a \<and> four = 4 \<and> 2 \<le> c
          then Inr [n, a, 6]
          else bad_shape ''MultiBoxDetection''
      | _ \<Rightarrow> bad_shape ''MultiBoxDetection'')"

definition getitem_shape :: "shape \<Rightarrow> nat \<Rightarrow> error + shape" where
  \<comment> \<open>\<open>x[i]\<close>: the first axis goes; an entry of a vector is an array of shape \<open>(1,)\<close>.\<close>
  "getitem_shape s i =
     (case s of
        [] \<Rightarrow> Inl IndexError
      | d # ds \<Rightarrow> if i < d then Inr (if ds = [] then [1] else ds) else Inl IndexError)"

definition take_shape :: "error option \<Rightarrow> shape \<Rightarrow> nat \<Rightarrow> nat list \<Rightarrow> error + shape" where
  \<comment> \<open>\<open>x[i, idx]\<close> with a list of indices into the second axis. Whether an empty list
      of indices gives an empty array or an exception depends on the version of the
      library: the first argument is the exception, if any.\<close>
  "take_shape on_empty s i idx =
     (case s of
        d0 # d1 # ds \<Rightarrow>
          if i < d0 \<and> list_all (\<lambda>j. j < d1) idx
          then (if idx = [] then (case on_empty of None \<Rightarrow> Inr (0 # ds) | Some e \<Rightarrow> Inl e)
                else Inr (length idx # ds))
          else Inl IndexError
      | _ \<Rightarrow> Inl IndexError)"

fun shape_answer ::
  "error option \<Rightarrow> (block, shape) call list \<Rightarrow> (block, shape) call \<Rightarrow> error + shape" where
  "shape_answer on_empty h (Forward blk s) = block_shape blk s"
| "shape_answer on_empty h (MultiBoxPrior s sizes' ratios') = prior_shape s sizes' ratios'"
| "shape_answer on_empty h (Transpose s axes) = transpose_shape s axes"
| "shape_answer on_empty h (Flatten s) = flatten_shape s"
| "shape_answer on_empty h (Concat ss axis) = concat_shape ss axis"
| "shape_answer on_empty h (Reshape s spec) = reshape_shape s spec"
| "shape_answer on_empty h (AsInContext s) = Inr s"
| "shape_answer on_empty h (Softmax s) = (if valid_shape s then Inr s else bad_shape ''softmax'')"
| "shape_answer on_empty h (MultiBoxDetection c b a) = detection_shape c b a"
| "shape_answer on_empty h (GetItem s i) = getitem_shape s i"
| "shape_answer on_empty h (Take s i idx) = take_shape on_empty s i idx"
| "shape_answer on_empty h (AsScalar s) = Inl TypeError"

definition shape_env ::
  "error option \<Rightarrow> ((block, shape) call list \<Rightarrow> (block, shape) call \<Rightarrow> error + real)
     \<Rightarrow> ((block, shape) call, shape) env" where
  \<comment> \<open>Arrays seen as their shapes. A shape does not say what number an array holds, so
      the answers to scalar reads are a parameter. No call of the detector returns three
      arrays or nothing.\<close>
  "shape_env on_empty values =
     \<lparr>answer = shape_answer on_empty, scalar = values,
      triple = (\<lambda>h c. Inl TypeError), effect = (\<lambda>h c. Some TypeError),
      len = (\<lambda>s. case s of [] \<Rightarrow> 0 | d # _ \<Rightarrow> d), size_of = prod_list\<rparr>"

subsection \<open>The library on the contents of arrays\<close>

text \<open>
  An array is its shape and its entries in row-major order. The calls that only move
  entries (transpose, flatten, concatenate, reshape, indexing) are modelled in full; what
  the layers and the detection operators compute is left to a parameter \<open>P\<close>.
\<close>

record ndarray =
  shape :: "nat list"
  data :: "real list"

definition valid_nd :: "ndarray \<Rightarrow> bool" where
  "valid_nd a = (valid_shape (shape a) \<and> length (data a) = prod_list (shape a))"

fun ravel :: "nat list \<Rightarrow> nat list \<Rightarrow> nat" where
  \<comment> \<open>The position of the entry with the given indices in the row-major order.\<close>
  "ravel (d # ds) (i # ix) = i * prod_list ds + ravel ds ix"
| "ravel _ _ = 0"

fun unravel :: "nat list \<Rightarrow> nat \<Rightarrow> nat list" where
  \<comment> \<open>The indices of the entry at a position.\<close>
  "unravel [] k = []"
| "unravel (d # ds) k = (k div prod_list ds) # unravel ds (k mod prod_list ds)"

definition index_of :: "nat \<Rightarrow> nat list \<Rightarrow> nat" where
  "index_of d axes = length (takeWhile (\<lambda>a. a \<noteq> d) axes)"

definition nd_transpose :: "ndarray \<Rightarrow> nat list \<Rightarrow> error + ndarray" where
  \<comment> \<open>Index \<open>j\<close> of an entry of the result is index \<open>axes[j]\<close> of the entry in the argument.\<close>
  "nd_transpose a axes =
     (case transpose_shape (shape a) axes of
        Inl e \<Rightarrow> Inl e
      | Inr s' \<Rightarrow>
          Inr \<lparr>shape = s',
               data = map (\<lambda>k. let j = unravel s' k
                                in data a ! ravel (shape a)
                                     (map (\<lambda>d. j ! index_of d axes) [0..<length (shape a)]))
                        [0..<prod_list s']\<rparr>)"

definition nd_flatten :: "ndarray \<Rightarrow> error + ndarray" where
  "nd_flatten a =
     (case flatten_shape (shape a) of
        Inl e \<Rightarrow> Inl e
      | Inr s' \<Rightarrow> Inr \<lparr>shape = s', data = data a\<rparr>)"

definition nd_concat :: "ndarray list \<Rightarrow> nat \<Rightarrow> error + ndarray" where
  \<comment> \<open>For each index into the axes before \<open>axis\<close>, the entries of the first array under
      that index, then those of the second, and so on.\<close>
  "nd_concat arrs axis =
     (case concat_shape (map shape arrs) axis of
        Inl e \<Rightarrow> Inl e
      | Inr s' \<Rightarrow>
          Inr \<lparr>shape = s',
               data = concat (map (\<lambda>outer.
                        concat (map (\<lambda>a. let chunk = prod_list (drop axis (shape a))
                                          in take chunk (drop (outer * chunk) (data a))) arrs))
                        [0..<prod_list (take axis s')])\<rparr>)"

definition nd_reshape :: "ndarray \<Rightarrow> dim_spec list \<Rightarrow> error + ndarray" where
  "nd_reshape a spec =
     (case reshape_shape (shape a) spec of
        Inl e \<Rightarrow> Inl e
      | Inr s' \<Rightarrow> Inr \<lparr>shape = s', data = data a\<rparr>)"

definition nd_getitem :: "ndarray \<Rightarrow> nat \<Rightarrow> error + ndarray" where
  "nd_getitem a i =
     (case getitem_shape (shape a) i of
        Inl e \<Rightarrow> Inl e
      | Inr s' \<Rightarrow> Inr \<lparr>shape = s', data = take (prod_list s') (drop (i * prod_list s') (data a))\<rparr>)"

definition nd_take :: "error option \<Rightarrow> ndarray \<Rightarrow> nat \<Rightarrow> nat list \<Rightarrow> error + ndarray" where
  \<comment> \<open>\<open>a[i, idx]\<close>: the rows \<open>idx\<close> of \<open>a[i]\<close>, in the order of \<open>idx\<close>.\<close>
  "nd_take on_empty a i idx =
     (case take_shape on_empty (shape a) i idx of
        Inl e \<Rightarrow> Inl e
      | Inr s' \<Rightarrow>
          let row = prod_list (drop 2 (shape a));
              base = i * (shape a ! 1) * row
          in Inr \<lparr>shape = s',
                  data = concat (map (\<lambda>j. take row (drop (base + j * row) (data a))) idx)\<rparr>)"

definition nd_asscalar :: "ndarray \<Rightarrow> error + real" where
  \<comment> \<open>Only an array of one entry is a scalar.\<close>
  "nd_asscalar a = (case data a of [v] \<Rightarrow> Inr v | _ \<Rightarrow> Inl ValueError)"

fun nd_answer ::
  "error option \<Rightarrow> (('l, ndarray) call list \<Rightarrow> ('l, ndarray) call \<Rightarrow> error + ndarray)
     \<Rightarrow> ('l, ndarray) call list \<Rightarrow> ('l, ndarray) call \<Rightarrow> error + ndarray" where
  "nd_answer on_empty P h (Transpose a axes) = nd_transpose a axes"
| "nd_answer on_empty P h (Flatten a) = nd_flatten a"
| "nd_answer on_empty P h (Concat arrs axis) = nd_concat arrs axis"
| "nd_answer on_empty P h (Reshape a spec) = nd_reshape a spec"
| "nd_answer on_empty P h (GetItem a i) = nd_getitem a i"
| "nd_answer on_empty P h (Take a i idx) = nd_take on_empty a i idx"
| "nd_answer on_empty P h (AsScalar a) = Inl TypeError"
| "nd_answer on_empty P h c = P h c"

fun nd_scalar :: "('l, ndarray) call list \<Rightarrow> ('l, ndarray) call \<Rightarrow> error + real" where
  "nd_scalar h (AsScalar a) = nd_asscalar a"
| "nd_scalar h c = Inl TypeError"

definition nd_env ::
  "error option \<Rightarrow> (('l, ndarray) call list \<Rightarrow> ('l, ndarray) call \<Rightarrow> error + ndarray)
     \<Rightarrow> (('l, ndarray) call, ndarray) env" where
  "nd_env on_empty P =
     \<lparr>answer = nd_answer on_empty P,
      scalar = nd_scalar,
      triple = (\<lambda>h c. Inl TypeError), effect = (\<lambda>h c. Some TypeError),
      len = (\<lambda>a. case shape a of [] \<Rightarrow> 0 | d # _ \<Rightarrow> d),
      size_of = (\<lambda>a. length (data a))\<rparr>"

definition entry :: "ndarray \<Rightarrow> nat list \<Rightarrow> real" where
  \<comment> \<open>The entry of an array at the given indices.\<close>
  "entry a ix = data a ! ravel (shape a) ix"

definition flat_len :: "ndarray \<Rightarrow> nat" where
  \<comment> \<open>The number of predictions \<open>h * w * c\<close> that an array of shape \<open>(n, c, h, w)\<close> holds
      for one example.\<close>
  "flat_len p = (case shape p of [n, c, h, w] \<Rightarrow> h * (w * c) | _ \<Rightarrow> 0)"

definition is_flat_of :: "ndarray \<Rightarrow> ndarray \<Rightarrow> bool" where
  \<comment> \<open>\<open>f\<close> holds the entries of \<open>p\<close>, of shape \<open>(n, c, h, w)\<close>, with the channel axis
      moved last and each example flattened to a vector.\<close>
  "is_flat_of p f =
     (case shape p of
        [N, c, h, w] \<Rightarrow>
          shape f = [N, h * (w * c)] \<and> length (data f) = N * (h * (w * c)) \<and> 0 < N \<and>
          0 < h * (w * c) \<and> flat_len p = h * (w * c) \<and>
          (\<forall>n<N. \<forall>y<h. \<forall>x<w. \<forall>ch<c.
             data f ! (n * (h * (w * c)) + ((y * w + x) * c + ch))
               = data p ! (((n * c + ch) * h + y) * w + x))
      | _ \<Rightarrow> False)"

fun toy_library :: "(block, ndarray) call list \<Rightarrow> (block, ndarray) call \<Rightarrow> error + ndarray" where
  \<comment> \<open>A small stand-in for the numerical part of the library, to run the programs on:
      every layer returns one pixel, and the detection operator returns three rows of
      which the second is marked as removed.\<close>
  "toy_library h (AsInContext x) = Inr x"
| "toy_library h (Forward blk x) = Inr \<lparr>shape = [1, 1, 1, 1], data = [0]\<rparr>"
| "toy_library h (MultiBoxPrior y s r) = Inr \<lparr>shape = [1, 1, 4], data = [0, 0, 1, 1]\<rparr>"
| "toy_library h (Softmax x) = Inr x"
| "toy_library h (MultiBoxDetection c b a) =
     Inr \<lparr>shape = [1, 3, 6],
          data = [0, 0.9, 0, 0, 1, 1,  - 1, 0.8, 0, 0, 1, 1,  0, 0.7, 0, 0, 1, 1]\<rparr>"
| "toy_library h c = Inl (MXNetError ''not a numerical call'')"

definition rows_of :: "ndarray \<Rightarrow> real list list" where
  \<comment> \<open>The rows of a two-dimensional array.\<close>
  "rows_of a =
     (case shape a of
        [r, w] \<Rightarrow> map (\<lambda>i. take w (drop (i * w) (data a))) [0..<r]
      | _ \<Rightarrow> [])"

section \<open>The training loops\<close>

text \<open>
  The two training loops run against the same kind of environment as the detector. Their
  calls are those of the array library and of autograd, the optimizer, and the callables
  \<open>net\<close> and \<open>loss\<close> that \<open>train_ch3\<close> is given, which only the environment knows. A
  data iterator is the list of batches that one pass over it yields; \<open>train_iter e\<close> is
  the pass of epoch \<open>e\<close>. \<open>'x\<close> is the type of arrays, \<open>'t\<close> the type of trainers.
\<close>

datatype ('x, 't) train_call =
    Net 'x
  | NetSSD 'x
  | LossFn 'x 'x
  | RecordEnter
  | RecordExit
  | Sum 'x
  | Backward 'x
  | Sgd "'x list option" "real option" nat
  | Step 't nat
  | AsType 'x
  | Argmax 'x int
  | Equal 'x 'x
  | Scalar 'x
  | PrintCh3 nat real real real
  | Reset
  | Time
  | ToContext 'x
  | TransposeT 'x "nat list"
  | MultiBoxTarget 'x 'x 'x
  | ClsLoss 'x 'x
  | BboxLoss 'x 'x
  | Mul 'x 'x
  | Add 'x 'x
  | Sub 'x 'x
  | Abs 'x
  | PrintSSD nat real real real

record 'x batch =
  batch_data :: "'x list"
  batch_label :: "'x list"

definition py_div :: "real \<Rightarrow> nat \<Rightarrow> error + real" where
  \<comment> \<open>\<open>a / n\<close> for a float and a count.\<close>
  "py_div a n = (if n = 0 then Inl ZeroDivisionError else Inr (a / real n))"

subsection \<open>Softmax regression: \<open>train_ch3\<close>\<close>

definition evaluate_accuracy_batch ::
  "(('x, 't) train_call, 'x) env \<Rightarrow> 'x \<times> 'x \<Rightarrow> real \<times> nat
     \<Rightarrow> (('x, 't) train_call, real \<times> nat) prog" where
  \<comment> \<open>The body of the loop of \<open>evaluate_accuracy\<close>.\<close>
  "evaluate_accuracy_batch E = (\<lambda>(X, y) (acc_sum, n).
     and_then (call E (AsType y)) (\<lambda>y.
     and_then (call E (Net X)) (\<lambda>out.
     and_then (call E (Argmax out 1)) (\<lambda>a.
     and_then (call E (Equal a y)) (\<lambda>eq.
     and_then (call E (Sum eq)) (\<lambda>s.
     and_then (call_scalar E (Scalar s)) (\<lambda>v.
     ret (acc_sum + v, n + size_of E y))))))))"

definition evaluate_accuracy ::
  "(('x, 't) train_call, 'x) env \<Rightarrow> ('x \<times> 'x) list \<Rightarrow> (('x, 't) train_call, real) prog" where
  "evaluate_accuracy E data_iter =
     and_then (for_each data_iter (evaluate_accuracy_batch E) (0, 0)) (\<lambda>(acc_sum, n).
     lift (py_div acc_sum n))"

definition train_ch3_batch ::
  "(('x, 't) train_call, 'x) env \<Rightarrow> nat \<Rightarrow> 'x list option \<Rightarrow> real option \<Rightarrow> 't option
     \<Rightarrow> 'x \<times> 'x \<Rightarrow> real \<times> real \<times> nat \<Rightarrow> (('x, 't) train_call, real \<times> real \<times> nat) prog"
  where
  \<comment> \<open>The body of the loop over the batches.\<close>
  "train_ch3_batch E batch_size params lr trainer = (\<lambda>(X, y) (train_l_sum, train_acc_sum, n).
     and_then (call_effect E RecordEnter) (\<lambda>_.
     and_then (call E (Net X)) (\<lambda>y_hat.
     and_then (call E (LossFn y_hat y)) (\<lambda>l.
     and_then (call E (Sum l)) (\<lambda>l.
     and_then (call_effect E RecordExit) (\<lambda>_.
     and_then (call_effect E (Backward l)) (\<lambda>_.
     and_then (case trainer of
                 None \<Rightarrow> call_effect E (Sgd params lr batch_size)
               | Some t \<Rightarrow> call_effect E (Step t batch_size)) (\<lambda>_.
     and_then (call E (AsType y)) (\<lambda>y.
     and_then (call_scalar E (Scalar l)) (\<lambda>lv.
     and_then (call E (Argmax y_hat 1)) (\<lambda>a.
     and_then (call E (Equal a y)) (\<lambda>eq.
     and_then (call E (Sum eq)) (\<lambda>s.
     and_then (call_scalar E (Scalar s)) (\<lambda>acc.
     ret (train_l_sum + lv, train_acc_sum + acc, n + size_of E y)))))))))))))))"

definition train_ch3_epoch ::
  "(('x, 't) train_call, 'x) env \<Rightarrow> (nat \<Rightarrow> ('x \<times> 'x) list) \<Rightarrow> (nat \<Rightarrow> ('x \<times> 'x) list) \<Rightarrow> nat
     \<Rightarrow> 'x list option \<Rightarrow> real option \<Rightarrow> 't option \<Rightarrow> nat \<Rightarrow> unit
     \<Rightarrow> (('x, 't) train_call, unit) prog" where
  \<comment> \<open>The body of the loop over the epochs.\<close>
  "train_ch3_epoch E train_iter test_iter batch_size params lr trainer epoch = (\<lambda>_.
     and_then (for_each (train_iter epoch) (train_ch3_batch E batch_size params lr trainer)
                 (0, 0, 0)) (\<lambda>(train_l_sum, train_acc_sum, n).
     and_then (evaluate_accuracy E (test_iter epoch)) (\<lambda>test_acc.
     and_then (lift (py_div train_l_sum n)) (\<lambda>loss.
     and_then (lift (py_div train_acc_sum n)) (\<lambda>acc.
     call_effect E (PrintCh3 (epoch + 1) loss acc test_acc))))))"

definition train_ch3 ::
  "(('x, 't) train_call, 'x) env \<Rightarrow> (nat \<Rightarrow> ('x \<times> 'x) list) \<Rightarrow> (nat \<Rightarrow> ('x \<times> 'x) list) \<Rightarrow> nat
     \<Rightarrow> nat \<Rightarrow> 'x list option \<Rightarrow> real option \<Rightarrow> 't option \<Rightarrow> (('x, 't) train_call, unit) prog"
  where
  "train_ch3 E train_iter test_iter num_epochs batch_size params lr trainer =
     for_each [0..<num_epochs]
       (train_ch3_epoch E train_iter test_iter batch_size params lr trainer) ()"

subsection \<open>The detector: loss, evaluation and the epoch loop\<close>

definition calc_loss ::
  "(('x, 't) train_call, 'x) env \<Rightarrow> 'x \<Rightarrow> 'x \<Rightarrow> 'x \<Rightarrow> 'x \<Rightarrow> 'x \<Rightarrow> (('x, 't) train_call, 'x) prog"
  where
  "calc_loss E cls_preds cls_labels bbox_preds bbox_labels bbox_masks =
     and_then (call E (ClsLoss cls_preds cls_labels)) (\<lambda>cls.
     and_then (call E (Mul bbox_preds bbox_masks)) (\<lambda>bp.
     and_then (call E (Mul bbox_labels bbox_masks)) (\<lambda>bl.
     and_then (call E (BboxLoss bp bl)) (\<lambda>bbox.
     call E (Add cls bbox)))))"

definition cls_eval ::
  "(('x, 't) train_call, 'x) env \<Rightarrow> 'x \<Rightarrow> 'x \<Rightarrow> (('x, 't) train_call, real) prog" where
  "cls_eval E cls_preds cls_labels =
     and_then (call E (Argmax cls_preds (- 1))) (\<lambda>a.
     and_then (call E (Equal a cls_labels)) (\<lambda>eq.
     and_then (call E (Sum eq)) (\<lambda>s.
     call_scalar E (Scalar s))))"

definition bbox_eval ::
  "(('x, 't) train_call, 'x) env \<Rightarrow> 'x \<Rightarrow> 'x \<Rightarrow> 'x \<Rightarrow> (('x, 't) train_call, real) prog" where
  "bbox_eval E bbox_preds bbox_labels bbox_masks =
     and_then (call E (Sub bbox_labels bbox_preds)) (\<lambda>d.
     and_then (call E (Mul d bbox_masks)) (\<lambda>m.
     and_then (call E (Abs m)) (\<lambda>a.
     and_then (call E (Sum a)) (\<lambda>s.
     call_scalar E (Scalar s)))))"

definition ssd_batch ::
  "(('x, 't) train_call, 'x) env \<Rightarrow> 't \<Rightarrow> nat \<Rightarrow> 'x batch \<Rightarrow> real \<times> real \<times> nat \<times> nat
     \<Rightarrow> (('x, 't) train_call, real \<times> real \<times> nat \<times> nat) prog" where
  \<comment> \<open>The body of the loop over the batches.\<close>
  "ssd_batch E trainer batch_size = (\<lambda>batch (acc_sum, mae_sum, n, m).
     and_then (lift (py_get (batch_data batch) 0)) (\<lambda>d.
     and_then (call E (ToContext d)) (\<lambda>X.
     and_then (lift (py_get (batch_label batch) 0)) (\<lambda>lb.
     and_then (call E (ToContext lb)) (\<lambda>Y.
     and_then (call_effect E RecordEnter) (\<lambda>_.
     and_then (call_triple E (NetSSD X)) (\<lambda>(anchors, cls_preds, bbox_preds).
     and_then (call E (TransposeT cls_preds [0, 2, 1])) (\<lambda>ct.
     and_then (call_triple E (MultiBoxTarget anchors Y ct)) (\<lambda>(bbox_labels, bbox_masks, cls_labels).
     and_then (calc_loss E cls_preds cls_labels bbox_preds bbox_labels bbox_masks) (\<lambda>l.
     and_then (call_effect E RecordExit) (\<lambda>_.
     and_then (call_effect E (Backward l)) (\<lambda>_.
     and_then (call_effect E (Step trainer batch_size)) (\<lambda>_.
     and_then (cls_eval E cls_preds cls_labels) (\<lambda>ce.
     and_then (bbox_eval E bbox_preds bbox_labels bbox_masks) (\<lambda>be.
     ret (acc_sum + ce, mae_sum + be, n + size_of E cls_labels,
          m + size_of E bbox_labels))))))))))))))))"

definition ssd_epoch ::
  "(('x, 't) train_call, 'x) env \<Rightarrow> (nat \<Rightarrow> 'x batch list) \<Rightarrow> 't \<Rightarrow> nat \<Rightarrow> nat \<Rightarrow> unit
     \<Rightarrow> (('x, 't) train_call, unit) prog" where
  \<comment> \<open>The body of the loop over the epochs.\<close>
  "ssd_epoch E train_iter trainer batch_size epoch = (\<lambda>_.
     and_then (call_effect E Reset) (\<lambda>_.
     and_then (call_scalar E Time) (\<lambda>start.
     and_then (for_each (train_iter epoch) (ssd_batch E trainer batch_size) (0, 0, 0, 0))
       (\<lambda>(acc_sum, mae_sum, n, m).
     if (epoch + 1) mod 5 = 0
     then and_then (lift (py_div acc_sum n)) (\<lambda>acc.
          and_then (lift (py_div mae_sum m)) (\<lambda>mae.
          and_then (call_scalar E Time) (\<lambda>now.
          call_effect E (PrintSSD (epoch + 1) (1 - acc) mae (now - start)))))
     else ret ()))))"

definition ssd_training ::
  "(('x, 't) train_call, 'x) env \<Rightarrow> (nat \<Rightarrow> 'x batch list) \<Rightarrow> 't \<Rightarrow> nat
     \<Rightarrow> (('x, 't) train_call, unit) prog" where
  \<comment> \<open>The training cell of the notebook: twenty epochs.\<close>
  "ssd_training E train_iter trainer batch_size =
     for_each [0..<20] (ssd_epoch E train_iter trainer batch_size) ()"

subsection \<open>What a run of a loop did\<close>

text \<open>
  The calls of a transcript that make the training step, without the arrays that the
  library returned: the forward pass on a batch, the loss on its labels, the backward
  pass, the optimizer step, and the report of an epoch.
\<close>

datatype 'x key =
    KNet 'x
  | KLoss 'x
  | KMove 'x
  | KNetSSD
  | KClsLoss
  | KBboxLoss
  | KBackward
  | KSgd
  | KStep
  | KReset
  | KReport nat

fun key_of :: "('x, 't) train_call \<Rightarrow> 'x key option" where
  "key_of (Net X) = Some (KNet X)"
| "key_of (LossFn y_hat y) = Some (KLoss y)"
| "key_of (ToContext x) = Some (KMove x)"
| "key_of (NetSSD X) = Some KNetSSD"
| "key_of (ClsLoss p l) = Some KClsLoss"
| "key_of (BboxLoss p l) = Some KBboxLoss"
| "key_of (Backward l) = Some KBackward"
| "key_of (Sgd params lr batch_size) = Some KSgd"
| "key_of (Step t batch_size) = Some KStep"
| "key_of Reset = Some KReset"
| "key_of (PrintCh3 epoch l a t) = Some (KReport epoch)"
| "key_of (PrintSSD epoch a m t) = Some (KReport epoch)"
| "key_of _ = None"

definition keys :: "('x, 't) train_call list \<Rightarrow> 'x key list" where
  "keys tr = List.map_filter key_of tr"

definition train_ch3_steps ::
  "(nat \<Rightarrow> ('x \<times> 'x) list) \<Rightarrow> (nat \<Rightarrow> ('x \<times> 'x) list) \<Rightarrow> 't option \<Rightarrow> nat \<Rightarrow> 'x key list" where
  \<comment> \<open>One epoch of \<open>train_ch3\<close>: each training batch in turn, then the evaluation on each
      test batch, then the report.\<close>
  "train_ch3_steps train_iter test_iter trainer epoch =
     concat (map (\<lambda>(X, y). [KNet X, KLoss y, KBackward,
                             (case trainer of None \<Rightarrow> KSgd | Some t \<Rightarrow> KStep)])
               (train_iter epoch))
     @ map (\<lambda>(X, y). KNet X) (test_iter epoch)
     @ [KReport (epoch + 1)]"

definition ssd_steps :: "(nat \<Rightarrow> 'x batch list) \<Rightarrow> nat \<Rightarrow> 'x key list" where
  \<comment> \<open>One epoch of the detector's loop: the iterator is reset, each batch in turn, and
      a report after every fifth epoch.\<close>
  "ssd_steps train_iter epoch =
     KReset #
     concat (map (\<lambda>b. [KMove (batch_data b ! 0), KMove (batch_label b ! 0), KNetSSD,
                        KClsLoss, KBboxLoss, KBackward, KStep])
               (train_iter epoch))
     @ (if (epoch + 1) mod 5 = 0 then [KReport (epoch + 1)] else [])"

subsection \<open>A library that fails\<close>






definition emits :: "('c \<Rightarrow> 'k option) \<Rightarrow> ('c, 'a) prog \<Rightarrow> 'k list \<Rightarrow> bool" where
  \<comment> \<open>Every run of the program that returns adds calls with these keys to the
      transcript.\<close>
  "emits key m ks =
     (\<forall>tr v tr'. m tr = Inr (v, tr') \<longrightarrow>
        List.map_filter key tr' = List.map_filter key tr @ ks)"

definition toy_trainer :: "((nat, unit) train_call, nat) env" where
  \<comment> \<open>A stand-in for the library and the callables, to run the loops on: arrays are
      numbers, every call returns, every array has one entry.\<close>
  "toy_trainer =
     \<lparr>answer = (\<lambda>h c. Inr 0), scalar = (\<lambda>h c. Inr 1), triple = (\<lambda>h c. Inr (0, 0, 0)),
      effect = (\<lambda>h c. None), len = (\<lambda>x. 1), size_of = (\<lambda>x. 1)\<rparr>"

section \<open>Properties of softmax\<close>






section \<open>Properties of classification accuracy\<close>

lemma argmax_foldl_invariant:
  fixes xs :: "real list"
  assumes "k \<le> length xs" "0 < length xs"
  defines "b \<equiv> foldl (\<lambda>best j. if xs ! best < xs ! j then j else best) 0 [1..<k]"
  shows "b < length xs \<and> b < max k 1 \<and> (\<forall>j<k. xs ! j \<le> xs ! b) \<and> (\<forall>j<b. xs ! j < xs ! b)"
  using assms(1) unfolding b_def
proof (induction k)
  case 0
  then show ?case using assms(2) by simp
next
  case (Suc k)
  show ?case
  proof (cases "k = 0")
    case True
    then show ?thesis using assms(2) by simp
  next
    case False
    define b' where "b' = foldl (\<lambda>best j. if xs ! best < xs ! j then j else best) 0 [1..<k]"
    from Suc have IH: "b' < length xs" "b' < max k 1" "\<forall>j<k. xs ! j \<le> xs ! b'"
      "\<forall>j<b'. xs ! j < xs ! b'"
      by (simp_all add: b'_def)
    from False have upt: "[1..<Suc k] = [1..<k] @ [k]" by simp
    have step: "foldl (\<lambda>best j. if xs ! best < xs ! j then j else best) 0 [1..<Suc k]
                = (if xs ! b' < xs ! k then k else b')"
      unfolding upt by (simp add: b'_def)
    show ?thesis
    proof (cases "xs ! b' < xs ! k")
      case True
      have "xs ! j \<le> xs ! k" if "j < Suc k" for j
        using that IH(3) True by (cases "j = k") (auto simp: less_Suc_eq intro: less_imp_le order_trans)
      moreover have "xs ! j < xs ! k" if "j < k" for j
        using that IH(3) True by (auto intro: le_less_trans)
      ultimately show ?thesis
        unfolding step using True Suc.prems by auto
    next
      case False
      have "xs ! j \<le> xs ! b'" if "j < Suc k" for j
        using that IH(3) False by (cases "j = k") (auto simp: less_Suc_eq)
      then show ?thesis
        unfolding step using False IH by auto
    qed
  qed
qed

lemma argmax_is_first_maximum:
  fixes xs :: "real list"
  assumes "xs \<noteq> []"
  shows "argmax xs < length xs \<and> (\<forall>j<length xs. xs ! j \<le> xs ! argmax xs) \<and>
         (\<forall>j<argmax xs. xs ! j < xs ! argmax xs)"
  using argmax_foldl_invariant [of "length xs" xs] assms by (simp add: argmax_def)




section \<open>Properties of the anchor-box schedule\<close>

lemma near_sqrt:
  fixes b x e :: real
  assumes "0 \<le> b - e" "(b - e)\<^sup>2 \<le> x" "x \<le> (b + e)\<^sup>2" "0 \<le> e"
  shows "\<bar>b - sqrt x\<bar> \<le> e"
proof -
  have "b - e \<le> sqrt x"
    using assms by (simp add: real_le_rsqrt)
  moreover have "sqrt x \<le> b + e"
    using assms by (intro real_le_lsqrt) auto
  ultimately show ?thesis by (simp add: abs_le_iff)
qed

lemma geometric_mean_of_nextI:
  assumes "py_get sizes i = Inr [s0, s1]" "py_get sizes (i + 1) = Inr (n0 # rest)"
    and "0 \<le> s1 - 5 / 10 ^ 4" "(s1 - 5 / 10 ^ 4)\<^sup>2 \<le> s0 * n0" "s0 * n0 \<le> (s1 + 5 / 10 ^ 4)\<^sup>2"
  shows "geometric_mean_of_next i"
proof -
  have "\<bar>s1 - sqrt (s0 * n0)\<bar> \<le> 5 / 10 ^ 4"
    using assms(3-5) by (intro near_sqrt) auto
  then show ?thesis
    unfolding geometric_mean_of_next_def assms(1,2) by simp
qed

lemma geometric_mean_withI:
  assumes "py_get sizes i = Inr [s0, s1]"
    and "0 \<le> s1 - 5 / 10 ^ 4" "(s1 - 5 / 10 ^ 4)\<^sup>2 \<le> s0 * n0" "s0 * n0 \<le> (s1 + 5 / 10 ^ 4)\<^sup>2"
  shows "geometric_mean_with i n0"
proof -
  have "\<bar>s1 - sqrt (s0 * n0)\<bar> \<le> 5 / 10 ^ 4"
    using assms(2-4) by (intro near_sqrt) auto
  then show ?thesis
    unfolding geometric_mean_with_def assms(1) by simp
qed

lemma geometric_mean_of_next_0: "geometric_mean_of_next 0"
  by (rule geometric_mean_of_nextI
        [where ?s0.0 = "0.2" and ?s1.0 = "0.272" and ?n0.0 = "0.37" and rest = "[0.447]"])
     (simp_all add: py_get_def sizes_def power2_eq_square)

lemma geometric_mean_of_next_1: "geometric_mean_of_next 1"
  by (rule geometric_mean_of_nextI
        [where ?s0.0 = "0.37" and ?s1.0 = "0.447" and ?n0.0 = "0.54" and rest = "[0.619]"])
     (simp_all add: py_get_def sizes_def power2_eq_square)

lemma geometric_mean_of_next_2: "geometric_mean_of_next 2"
  by (rule geometric_mean_of_nextI
        [where ?s0.0 = "0.54" and ?s1.0 = "0.619" and ?n0.0 = "0.71" and rest = "[0.79]"])
     (simp_all add: py_get_def sizes_def power2_eq_square)

lemma geometric_mean_of_next_3: "geometric_mean_of_next 3"
  by (rule geometric_mean_of_nextI
        [where ?s0.0 = "0.71" and ?s1.0 = "0.79" and ?n0.0 = "0.88" and rest = "[0.961]"])
     (simp_all add: py_get_def sizes_def power2_eq_square)

lemma geometric_mean_with_last: "geometric_mean_with 4 1.05"
  by (rule geometric_mean_withI [where ?s0.0 = "0.88" and ?s1.0 = "0.961"])
     (simp_all add: py_get_def sizes_def power2_eq_square)

lemma num_anchors_eq: "num_anchors = 4"
  by (simp add: num_anchors_def sizes_def ratios_def)

text \<open>
  C3, as stated: for each of the five scales \<open>i\<close> the second size of scale \<open>i\<close> is the
  geometric mean of the first size of scale \<open>i\<close> and the first size of scale \<open>i + 1\<close>.
  The table has five rows, so the last scale has no next row: reading \<open>sizes[5]\<close> raises,
  and the relation fails at \<open>i = 4\<close>.
\<close>

theorem size_schedule_last_scale_counterexample: "\<not> geometric_mean_of_next 4"
  by (simp add: geometric_mean_of_next_def py_get_def sizes_def)

text \<open>
  C3, amended: the schedule is a table of five scales of two sizes each; for the first
  four scales the second size is the geometric mean of the scale's first size and the
  next scale's first size, and for the last scale it is the geometric mean of its first
  size and \<open>1.05\<close>, the end of the interval the first sizes divide; each to the three
  decimals of the table.
\<close>

theorem size_schedule_geometric_means:
  "length sizes = 5 \<and> geometric_mean_of_next 0 \<and> geometric_mean_of_next 1 \<and>
   geometric_mean_of_next 2 \<and> geometric_mean_of_next 3 \<and> geometric_mean_with 4 1.05"
  using geometric_mean_of_next_0 geometric_mean_of_next_1 geometric_mean_of_next_2
    geometric_mean_of_next_3 geometric_mean_with_last
  by (simp add: sizes_def)

section \<open>Shapes through the detector\<close>

lemma upt_5: "[0..<5] = [0, 1, 2, 3, 4]"
  by (simp add: upt_rec)

lemma upt_2: "[0..<2] = [0, 1]"
  by (simp add: upt_rec)

lemma down_sample_blk_eq:
  "down_sample_blk k =
     Sequential [Conv2D k 3 1, BatchNorm k, Activation ''relu'',
                 Conv2D k 3 1, BatchNorm k, Activation ''relu'', MaxPool2D 2]"
  by (simp add: down_sample_blk_def add_def upt_2)

lemma base_net_eq:
  "base_net = Sequential [down_sample_blk 16, down_sample_blk 32, down_sample_blk 64]"
  by (simp add: base_net_def add_def)

lemma conv3_same_shape:
  assumes "0 < n" "0 < c" "0 < h" "0 < w" "0 < k"
  shows "block_shape (Conv2D k 3 1) [n, c, h, w] = Inr [n, k, h, w]"
  using assms by (simp add: valid_shape_def)

lemma down_sample_blk_shape:
  assumes "0 < n" "0 < c" "0 < k" "0 < h" "0 < w" "even h" "even w"
  shows "block_shape (down_sample_blk k) [n, c, h, w] = Inr [n, k, h div 2, w div 2]"
proof -
  from assms have h2: "2 \<le> h" "2 \<le> w"
    by (auto elim!: evenE)
  have half: "Suc ((m - 2) div 2) = m div 2" if "2 \<le> m" for m :: nat
    using that by presburger
  from assms h2 show ?thesis
    by (simp add: down_sample_blk_eq valid_shape_def half)
qed

lemma base_net_shape:
  assumes "0 < n" "0 < c"
  shows "block_shape base_net [n, c, 256, 256] = Inr [n, 64, 32, 32]"
proof -
  have 1: "block_shape (down_sample_blk 16) [n, c, 256, 256] = Inr [n, 16, 128, 128]"
    using down_sample_blk_shape [of n c 16 256 256] assms by simp
  have 2: "block_shape (down_sample_blk 32) [n, 16, 128, 128] = Inr [n, 32, 64, 64]"
    using down_sample_blk_shape [of n 16 32 128 128] assms by simp
  have 3: "block_shape (down_sample_blk 64) [n, 32, 64, 64] = Inr [n, 64, 32, 32]"
    using down_sample_blk_shape [of n 32 64 64 64] assms by simp
  show ?thesis
    by (simp add: base_net_eq 1 2 3)
qed

text \<open>
  C8. On an input of shape \<open>(n, c, h, w)\<close> with even \<open>h\<close> and \<open>w\<close>, \<open>down_sample_blk k\<close>
  returns an array of shape \<open>(n, k, h / 2, w / 2)\<close>; and \<open>base_net\<close>, three such blocks
  with 16, 32 and 64 channels, takes shape \<open>(n, 3, 256, 256)\<close> to \<open>(n, 64, 32, 32)\<close>.
\<close>

theorem down_sample_blk_halves:
  "(0 < n \<and> 0 < c \<and> 0 < k \<and> 0 < h \<and> 0 < w \<and> even h \<and> even w \<longrightarrow>
      forward (shape_env on_empty values) [n, c, h, w] (down_sample_blk k) tr
        = Inr ([n, k, h div 2, w div 2], tr @ [Forward (down_sample_blk k) [n, c, h, w]])) \<and>
   (0 < n \<longrightarrow>
      forward (shape_env on_empty values) [n, 3, 256, 256] base_net tr
        = Inr ([n, 64, 32, 32], tr @ [Forward base_net [n, 3, 256, 256]]))"
  by (simp add: forward_def call_def shape_env_def down_sample_blk_shape base_net_shape)

theorem down_sample_blk_halves_witness:
  "forward (shape_env None (\<lambda>h c. Inr 0)) [2, 3, 20, 20] (down_sample_blk 10) []
     = Inr ([2, 10, 10, 10], [Forward (down_sample_blk 10) [2, 3, 20, 20]]) \<and>
   forward (shape_env None (\<lambda>h c. Inr 0)) [2, 3, 256, 256] base_net []
     = Inr ([2, 64, 32, 32], [Forward base_net [2, 3, 256, 256]])"
  using down_sample_blk_halves [of 2 3 10 20 20 None "\<lambda>h c. Inr 0" "[]"]
    down_sample_blk_halves [of 2 3 10 20 20 None "\<lambda>h c. Inr 0" "[]"]
  by simp


lemma str_of_nat_digit:
  "str_of_nat 0 = ''0''" "str_of_nat 1 = ''1''" "str_of_nat 2 = ''2''"
  "str_of_nat 3 = ''3''" "str_of_nat 4 = ''4''" "str_of_nat (Suc 0) = ''1''"
  by (simp_all add: digit_def)

declare str_of_nat.simps [simp del]

lemma TinySSD_init_eq:
  "TinySSD_init nc =
     \<lparr>num_classes = nc,
      attrs = [''blk_0'' \<mapsto> base_net, ''cls_0'' \<mapsto> cls_predictor 4 nc, ''bbox_0'' \<mapsto> bbox_predictor 4,
               ''blk_1'' \<mapsto> down_sample_blk 128, ''cls_1'' \<mapsto> cls_predictor 4 nc, ''bbox_1'' \<mapsto> bbox_predictor 4,
               ''blk_2'' \<mapsto> down_sample_blk 128, ''cls_2'' \<mapsto> cls_predictor 4 nc, ''bbox_2'' \<mapsto> bbox_predictor 4,
               ''blk_3'' \<mapsto> down_sample_blk 128, ''cls_3'' \<mapsto> cls_predictor 4 nc, ''bbox_3'' \<mapsto> bbox_predictor 4,
               ''blk_4'' \<mapsto> GlobalMaxPool2D, ''cls_4'' \<mapsto> cls_predictor 4 nc, ''bbox_4'' \<mapsto> bbox_predictor 4]\<rparr>"
  by (simp add: TinySSD_init_def upt_5 setattr_def str_of_nat_digit get_blk_def num_anchors_eq)

lemma getattr_TinySSD_init:
  "getattr (TinySSD_init nc) ''blk_0'' = Inr base_net"
  "getattr (TinySSD_init nc) ''blk_1'' = Inr (down_sample_blk 128)"
  "getattr (TinySSD_init nc) ''blk_2'' = Inr (down_sample_blk 128)"
  "getattr (TinySSD_init nc) ''blk_3'' = Inr (down_sample_blk 128)"
  "getattr (TinySSD_init nc) ''blk_4'' = Inr GlobalMaxPool2D"
  "getattr (TinySSD_init nc) ''cls_0'' = Inr (cls_predictor 4 nc)"
  "getattr (TinySSD_init nc) ''cls_1'' = Inr (cls_predictor 4 nc)"
  "getattr (TinySSD_init nc) ''cls_2'' = Inr (cls_predictor 4 nc)"
  "getattr (TinySSD_init nc) ''cls_3'' = Inr (cls_predictor 4 nc)"
  "getattr (TinySSD_init nc) ''cls_4'' = Inr (cls_predictor 4 nc)"
  "getattr (TinySSD_init nc) ''bbox_0'' = Inr (bbox_predictor 4)"
  "getattr (TinySSD_init nc) ''bbox_1'' = Inr (bbox_predictor 4)"
  "getattr (TinySSD_init nc) ''bbox_2'' = Inr (bbox_predictor 4)"
  "getattr (TinySSD_init nc) ''bbox_3'' = Inr (bbox_predictor 4)"
  "getattr (TinySSD_init nc) ''bbox_4'' = Inr (bbox_predictor 4)"
  by (simp_all add: TinySSD_init_eq getattr_def)


lemma yields_ret: "yields (ret v) v"
  by (simp add: yields_def ret_def)

lemma yields_lift: "r = Inr v \<Longrightarrow> yields (lift r) v"
  by (simp add: yields_def lift_def ret_def)

lemma yields_and_then:
  assumes "yields m v" "yields (f v) w"
  shows "yields (and_then m f) w"
  unfolding yields_def
proof
  fix tr
  from assms(1) obtain tr1 where 1: "m tr = Inr (v, tr1)"
    unfolding yields_def by blast
  from assms(2) obtain tr2 where 2: "f v tr1 = Inr (w, tr2)"
    unfolding yields_def by blast
  show "\<exists>tr'. and_then m f tr = Inr (w, tr')"
    by (simp add: and_then_def 1 2)
qed

lemma shape_answer_any_transcript: "shape_answer oe tr c = shape_answer oe [] c"
  by (cases c) simp_all

lemma yields_call_shape:
  assumes "shape_answer oe [] c = Inr s"
  shows "yields (call (shape_env oe vals) c) s"
  using assms shape_answer_any_transcript [of oe _ c]
  by (simp add: yields_def call_def shape_env_def)

lemma blk_forward_yields:
  assumes "block_shape blk X = Inr [n, c, h, w]" "0 < n" "0 < c" "0 < h" "0 < w"
    and "length sz = 2" "length rt = 3"
  shows "yields (blk_forward (shape_env oe vals) X blk sz rt (cls_predictor 4 nc) (bbox_predictor 4))
           ([n, c, h, w], [1, h * w * 4, 4], [n, 4 * (nc + 1), h, w], [n, 16, h, w])"
proof -
  have prior: "shape_answer oe [] (MultiBoxPrior [n, c, h, w] sz rt) = Inr [1, h * w * 4, 4]"
    using assms by (auto simp: prior_shape_def valid_shape_def)
  have cls: "shape_answer oe [] (Forward (cls_predictor 4 nc) [n, c, h, w])
               = Inr [n, 4 * (nc + 1), h, w]"
    using assms by (simp add: cls_predictor_def valid_shape_def)
  have bbox: "shape_answer oe [] (Forward (bbox_predictor 4) [n, c, h, w]) = Inr [n, 16, h, w]"
    using assms by (simp add: bbox_predictor_def valid_shape_def)
  have blk: "shape_answer oe [] (Forward blk X) = Inr [n, c, h, w]"
    by (simp add: assms(1))
  show ?thesis
    unfolding blk_forward_def
    by (rule yields_and_then [OF yields_call_shape [OF blk]]
        yields_and_then [OF yields_call_shape [OF prior]]
        yields_and_then [OF yields_call_shape [OF cls]]
        yields_and_then [OF yields_call_shape [OF bbox]]
        yields_ret)+
qed


lemma upt_4: "[0..<4] = [0, 1, 2, 3]"
  by (simp add: upt_rec)

lemma flatten_pred_yields:
  assumes "0 < n" "0 < c" "0 < h" "0 < w"
  shows "yields (flatten_pred (shape_env oe vals) [n, c, h, w]) [n, h * w * c]"
proof -
  have "[0..<length [n, c, h, w]] = [0, 1, 2, 3]"
    by (simp add: upt_4)
  then have t: "shape_answer oe [] (Transpose [n, c, h, w] [0, 2, 3, 1]) = Inr [n, h, w, c]"
    using assms unfolding shape_answer.simps transpose_shape_def by (simp add: valid_shape_def)
  have f: "shape_answer oe [] (Flatten [n, h, w, c]) = Inr [n, h * w * c]"
    using assms by (simp add: flatten_shape_def valid_shape_def)
  show ?thesis
    unfolding flatten_pred_def
    by (rule yields_and_then [OF yields_call_shape [OF t]] yields_call_shape [OF f])+
qed


lemma map_prog_yields_Cons:
  assumes "yields (f p) v" "yields (map_prog f ps) vs"
  shows "yields (map_prog f (p # ps)) (v # vs)"
  unfolding map_prog.simps
  by (rule yields_and_then [OF assms(1)] yields_and_then [OF assms(2)] yields_ret)+

lemma map_prog_yields_Nil: "yields (map_prog f []) []"
  by (simp add: yields_ret)


lemma concat_preds_yields:
  assumes "0 < n" "0 < k"
  shows "yields (concat_preds (shape_env oe vals)
                   [[n, k, 32, 32], [n, k, 16, 16], [n, k, 8, 8], [n, k, 4, 4], [n, k, 1, 1]])
           [n, 1361 * k]"
proof -
  have f32: "yields (flatten_pred (shape_env oe vals) [n, k, 32, 32]) [n, 1024 * k]"
    using flatten_pred_yields [of n k 32 32 oe vals] assms by simp
  have f16: "yields (flatten_pred (shape_env oe vals) [n, k, 16, 16]) [n, 256 * k]"
    using flatten_pred_yields [of n k 16 16 oe vals] assms by simp
  have f8: "yields (flatten_pred (shape_env oe vals) [n, k, 8, 8]) [n, 64 * k]"
    using flatten_pred_yields [of n k 8 8 oe vals] assms by simp
  have f4: "yields (flatten_pred (shape_env oe vals) [n, k, 4, 4]) [n, 16 * k]"
    using flatten_pred_yields [of n k 4 4 oe vals] assms by simp
  have f1: "yields (flatten_pred (shape_env oe vals) [n, k, 1, 1]) [n, k]"
    using flatten_pred_yields [of n k 1 1 oe vals] assms by simp
  have m: "yields (map_prog (flatten_pred (shape_env oe vals))
                    [[n, k, 32, 32], [n, k, 16, 16], [n, k, 8, 8], [n, k, 4, 4], [n, k, 1, 1]])
             [[n, 1024 * k], [n, 256 * k], [n, 64 * k], [n, 16 * k], [n, k]]"
    by (rule map_prog_yields_Cons f32 f16 f8 f4 f1 map_prog_yields_Nil)+
  have c: "shape_answer oe []
             (Concat [[n, 1024 * k], [n, 256 * k], [n, 64 * k], [n, 16 * k], [n, k]] 1)
           = Inr [n, 1361 * k]"
    using assms by (simp add: concat_shape_def valid_shape_def)
  show ?thesis
    unfolding concat_preds_def
    by (rule yields_and_then [OF m]) (rule yields_call_shape [OF c])
qed

lemma reshape_classes:
  assumes "0 < n" "0 < m" "0 < k"
  shows "shape_answer oe [] (Reshape [n, m * k] [Keep, Infer, Dim k]) = Inr [n, m, k]"
proof -
  have "enumerate 0 [Keep, Infer, Dim k] = [(0, Keep), (1, Infer), (2, Dim k)]"
    by simp
  then show ?thesis
    using assms unfolding shape_answer.simps reshape_shape_def
    by (simp add: valid_shape_def)
qed


lemma py_get_sizes: "i < 5 \<Longrightarrow> py_get sizes i = Inr (sizes ! i) \<and> length (sizes ! i) = 2"
  by (auto simp: py_get_def sizes_def less_Suc_eq numeral_eq_Suc)

lemma py_get_ratios: "i < 5 \<Longrightarrow> py_get ratios i = Inr (ratios ! i) \<and> length (ratios ! i) = 3"
  by (simp add: py_get_def ratios_def)

lemma forward_body_yields:
  assumes "getattr self (''blk_'' @ str_of_nat i) = Inr blk"
    and "getattr self (''cls_'' @ str_of_nat i) = Inr (cls_predictor 4 nc)"
    and "getattr self (''bbox_'' @ str_of_nat i) = Inr (bbox_predictor 4)"
    and "i < 5" "block_shape blk X = Inr [n, c, h, w]" "0 < n" "0 < c" "0 < h" "0 < w"
  shows "yields (TinySSD_forward_body (shape_env oe vals) self i (X, A, C, B))
           ([n, c, h, w], A[i := Some [1, h * w * 4, 4]], C[i := Some [n, 4 * (nc + 1), h, w]],
            B[i := Some [n, 16, h, w]])"
proof -
  note bf = blk_forward_yields [OF assms(5-9) conjunct2 [OF py_get_sizes [OF assms(4)]]
      conjunct2 [OF py_get_ratios [OF assms(4)]], of oe vals nc]
  show ?thesis
    unfolding TinySSD_forward_body_def prod.case
    apply (rule yields_and_then [OF yields_lift [OF assms(1)]])
    apply (rule yields_and_then [OF yields_lift [OF conjunct1 [OF py_get_sizes [OF assms(4)]]]])
    apply (rule yields_and_then [OF yields_lift [OF conjunct1 [OF py_get_ratios [OF assms(4)]]]])
    apply (rule yields_and_then [OF yields_lift [OF assms(2)]])
    apply (rule yields_and_then [OF yields_lift [OF assms(3)]])
    apply (rule yields_and_then [OF bf])
    apply (simp only: prod.case)
    apply (rule yields_ret)
    done
qed


lemma global_pool_shape:
  assumes "0 < n" "0 < c" "0 < h" "0 < w"
  shows "block_shape GlobalMaxPool2D [n, c, h, w] = Inr [n, c, 1, 1]"
  using assms by (simp add: valid_shape_def)

lemma for_each_yields_Cons:
  assumes "yields (body i s) s'" "yields (for_each js body s') s''"
  shows "yields (for_each (i # js) body s) s''"
  unfolding for_each.simps by (rule yields_and_then [OF assms(1)]) (rule assms(2))

lemma for_each_yields_Nil: "yields (for_each [] body s) s"
  by (simp add: yields_ret)

lemma TinySSD_forward_loop_yields:
  assumes "0 < n" "0 < c"
  shows "yields (for_each [0..<5] (TinySSD_forward_body (shape_env oe vals) (TinySSD_init nc))
                   ([n, c, 256, 256], replicate 5 None, replicate 5 None, replicate 5 None))
           ([n, 128, 1, 1],
            [Some [1, 4096, 4], Some [1, 1024, 4], Some [1, 256, 4], Some [1, 64, 4], Some [1, 4, 4]],
            [Some [n, 4 * (nc + 1), 32, 32], Some [n, 4 * (nc + 1), 16, 16],
             Some [n, 4 * (nc + 1), 8, 8], Some [n, 4 * (nc + 1), 4, 4],
             Some [n, 4 * (nc + 1), 1, 1]],
            [Some [n, 16, 32, 32], Some [n, 16, 16, 16], Some [n, 16, 8, 8], Some [n, 16, 4, 4],
             Some [n, 16, 1, 1]])"
proof -
  let ?E = "shape_env oe vals" and ?self = "TinySSD_init nc"
  have rep: "replicate 5 None = [None, None, None, None, None :: shape option]"
    by (simp add: numeral_eq_Suc)
  have b0: "block_shape base_net [n, c, 256, 256] = Inr [n, 64, 32, 32]"
    using assms by (rule base_net_shape)
  have b1: "block_shape (down_sample_blk 128) [n, 64, 32, 32] = Inr [n, 128, 16, 16]"
    using down_sample_blk_shape [of n 64 128 32 32] assms by simp
  have b2: "block_shape (down_sample_blk 128) [n, 128, 16, 16] = Inr [n, 128, 8, 8]"
    using down_sample_blk_shape [of n 128 128 16 16] assms by simp
  have b3: "block_shape (down_sample_blk 128) [n, 128, 8, 8] = Inr [n, 128, 4, 4]"
    using down_sample_blk_shape [of n 128 128 8 8] assms by simp
  have b4: "block_shape GlobalMaxPool2D [n, 128, 4, 4] = Inr [n, 128, 1, 1]"
    using global_pool_shape [of n 128 4 4] assms by simp
  have s0: "yields (TinySSD_forward_body ?E ?self 0 ([n, c, 256, 256], A, C, B))
      ([n, 64, 32, 32], A[0 := Some [1, 4096, 4]], C[0 := Some [n, 4 * (nc + 1), 32, 32]],
       B[0 := Some [n, 16, 32, 32]])" for A C B
    using forward_body_yields [where i = 0 and self = ?self and nc = nc, OF _ _ _ _ b0, of oe vals A C B]
      assms by (simp add: getattr_TinySSD_init str_of_nat_digit)
  have s1: "yields (TinySSD_forward_body ?E ?self 1 ([n, 64, 32, 32], A, C, B))
      ([n, 128, 16, 16], A[1 := Some [1, 1024, 4]], C[1 := Some [n, 4 * (nc + 1), 16, 16]],
       B[1 := Some [n, 16, 16, 16]])" for A C B
    using forward_body_yields [where i = 1 and self = ?self and nc = nc, OF _ _ _ _ b1, of oe vals A C B]
      assms by (simp add: getattr_TinySSD_init str_of_nat_digit)
  have s2: "yields (TinySSD_forward_body ?E ?self 2 ([n, 128, 16, 16], A, C, B))
      ([n, 128, 8, 8], A[2 := Some [1, 256, 4]], C[2 := Some [n, 4 * (nc + 1), 8, 8]],
       B[2 := Some [n, 16, 8, 8]])" for A C B
    using forward_body_yields [where i = 2 and self = ?self and nc = nc, OF _ _ _ _ b2, of oe vals A C B]
      assms by (simp add: getattr_TinySSD_init str_of_nat_digit)
  have s3: "yields (TinySSD_forward_body ?E ?self 3 ([n, 128, 8, 8], A, C, B))
      ([n, 128, 4, 4], A[3 := Some [1, 64, 4]], C[3 := Some [n, 4 * (nc + 1), 4, 4]],
       B[3 := Some [n, 16, 4, 4]])" for A C B
    using forward_body_yields [where i = 3 and self = ?self and nc = nc, OF _ _ _ _ b3, of oe vals A C B]
      assms by (simp add: getattr_TinySSD_init str_of_nat_digit)
  have s4: "yields (TinySSD_forward_body ?E ?self 4 ([n, 128, 4, 4], A, C, B))
      ([n, 128, 1, 1], A[4 := Some [1, 4, 4]], C[4 := Some [n, 4 * (nc + 1), 1, 1]],
       B[4 := Some [n, 16, 1, 1]])" for A C B
    using forward_body_yields [where i = 4 and self = ?self and nc = nc, OF _ _ _ _ b4, of oe vals A C B]
      assms by (simp add: getattr_TinySSD_init str_of_nat_digit)
  have "yields (for_each [0, 1, 2, 3, 4] (TinySSD_forward_body ?E ?self)
                   ([n, c, 256, 256], replicate 5 None, replicate 5 None, replicate 5 None))
          ([n, 128, 1, 1],
           (replicate 5 None)[0 := Some [1, 4096, 4], 1 := Some [1, 1024, 4], 2 := Some [1, 256, 4],
              3 := Some [1, 64, 4], 4 := Some [1, 4, 4]],
           (replicate 5 None)[0 := Some [n, 4 * (nc + 1), 32, 32], 1 := Some [n, 4 * (nc + 1), 16, 16],
              2 := Some [n, 4 * (nc + 1), 8, 8], 3 := Some [n, 4 * (nc + 1), 4, 4],
              4 := Some [n, 4 * (nc + 1), 1, 1]],
           (replicate 5 None)[0 := Some [n, 16, 32, 32], 1 := Some [n, 16, 16, 16],
              2 := Some [n, 16, 8, 8], 3 := Some [n, 16, 4, 4], 4 := Some [n, 16, 1, 1]])"
    by (rule for_each_yields_Cons, rule s0, rule for_each_yields_Cons, rule s1,
        rule for_each_yields_Cons, rule s2, rule for_each_yields_Cons, rule s3,
        rule for_each_yields_Cons, rule s4, rule for_each_yields_Nil)
  then show ?thesis
    unfolding upt_5 rep by simp
qed


lemma TinySSD_forward_yields:
  assumes "0 < n" "0 < c"
  shows "yields (TinySSD_forward (shape_env oe vals) (TinySSD_init nc) [n, c, 256, 256])
           ([1, 5444, 4], [n, 5444, nc + 1], [n, 21776])"
proof -
  let ?E = "shape_env oe vals"
  have a: "all_set [Some [1, 4096, 4], Some [1, 1024, 4], Some [1, 256, 4], Some [1, 64, 4],
                    Some [1, 4, 4 :: nat]]
           = Inr [[1, 4096, 4], [1, 1024, 4], [1, 256, 4], [1, 64, 4], [1, 4, 4]]"
    by (simp add: all_set_def)
  have ac: "shape_answer oe []
              (Concat [[1, 4096, 4], [1, 1024, 4], [1, 256, 4], [1, 64, 4], [1, 4, 4]] 1)
            = Inr [1, 5444, 4]"
    by (simp add: concat_shape_def valid_shape_def)
  have cs: "all_set [Some [n, k, 32, 32], Some [n, k, 16, 16], Some [n, k, 8, 8],
                     Some [n, k, 4, 4], Some [n, k, 1, 1]]
           = Inr [[n, k, 32, 32], [n, k, 16, 16], [n, k, 8, 8], [n, k, 4, 4], [n, k, 1, 1]]" for k
    by (simp add: all_set_def)
  have cc: "yields (concat_preds ?E
                      [[n, 4 * (nc + 1), 32, 32], [n, 4 * (nc + 1), 16, 16],
                       [n, 4 * (nc + 1), 8, 8], [n, 4 * (nc + 1), 4, 4], [n, 4 * (nc + 1), 1, 1]])
              [n, 5444 * (nc + 1)]"
    using concat_preds_yields [of n "4 * (nc + 1)" oe vals] assms by simp
  have rs: "shape_answer oe [] (Reshape [n, 5444 * (nc + 1)] [Keep, Infer, Dim (nc + 1)])
            = Inr [n, 5444, nc + 1]"
    using assms by (intro reshape_classes) simp_all
  have bc: "yields (concat_preds ?E
                      [[n, 16, 32, 32], [n, 16, 16, 16], [n, 16, 8, 8], [n, 16, 4, 4],
                       [n, 16, 1, 1]])
              [n, 21776]"
    using concat_preds_yields [of n 16 oe vals] assms by simp
  have nc: "num_classes (TinySSD_init nc) = nc"
    by (simp add: TinySSD_init_eq)
  show ?thesis
    unfolding TinySSD_forward_def nc
    apply (rule yields_and_then [OF TinySSD_forward_loop_yields [OF assms]])
    apply (simp only: prod.case)
    apply (rule yields_and_then [OF yields_lift [OF a]])
    apply (rule yields_and_then [OF yields_call_shape [OF ac]])
    apply (rule yields_and_then [OF yields_lift [OF cs]])
    apply (rule yields_and_then [OF cc])
    apply (rule yields_and_then [OF yields_call_shape [OF rs]])
    apply (rule yields_and_then [OF yields_lift [OF cs]])
    apply (rule yields_and_then [OF bc])
    apply (rule yields_ret)
    done
qed

text \<open>
  C1. With four anchor boxes for each cell, the forward pass of \<open>TinySSD\<close> on a batch of
  \<open>256 \<times> 256\<close> images returns \<open>(32\<^sup>2 + 16\<^sup>2 + 8\<^sup>2 + 4\<^sup>2 + 1) \<times> 4 = 5444\<close> anchor boxes,
  and class predictions with 5444 entries along the middle axis.
\<close>

theorem TinySSD_forward_anchor_count:
  "num_anchors = 4 \<and> (32\<^sup>2 + 16\<^sup>2 + 8\<^sup>2 + 4\<^sup>2 + 1) * num_anchors = 5444 \<and>
   (0 < n \<and> 0 < c \<longrightarrow>
     (\<exists>tr'. TinySSD_forward (shape_env on_empty values) (TinySSD_init nc) [n, c, 256, 256] tr
              = Inr (([1, 5444, 4], [n, 5444, nc + 1], [n, 21776]), tr')))"
  using TinySSD_forward_yields [of n c on_empty "values" nc]
  by (simp add: num_anchors_eq yields_def)

theorem TinySSD_forward_anchor_count_witness:
  "\<exists>tr'. TinySSD_forward (shape_env None (\<lambda>h c. Inr 0)) (TinySSD_init 1) [32, 3, 256, 256] []
          = Inr (([1, 5444, 4], [32, 5444, 2], [32, 21776]), tr')"
  using TinySSD_forward_anchor_count [of 32 3 None "\<lambda>h c. Inr 0" 1 "[]", THEN conjunct2,
      THEN conjunct2]
  by (simp add: numeral_2_eq_2)

section \<open>The attribute-based model and the ordered model\<close>

lemma and_then_ret [simp]: "and_then (ret v) f = f v"
  by (simp add: and_then_def ret_def)

lemma and_then_lift_Inr [simp]: "and_then (lift (Inr v)) f = f v"
  by (simp add: lift_def)

lemma and_then_lift_Inl [simp]: "and_then (lift (Inl e)) f = raise e"
  by (simp add: lift_def and_then_def raise_def)

lemma and_then_raise [simp]: "and_then (raise e) f = raise e"
  by (simp add: and_then_def raise_def)

lemma and_then_assoc: "and_then (and_then m f) g = and_then m (\<lambda>x. and_then (f x) g)"
  by (auto simp: and_then_def fun_eq_iff split: sum.splits)

lemma and_then_ret_right [simp]: "and_then m ret = m"
  by (auto simp: and_then_def ret_def fun_eq_iff split: sum.splits)

lemma update_pad:
  assumes "length xs = i" "i < 5"
  shows "(map Some xs @ replicate (5 - i) None)[i := Some v]
         = map Some xs @ Some v # replicate (4 - i) None"
proof -
  from assms have "5 - i = Suc (4 - i)" by arith
  then show ?thesis
    using assms by (simp add: list_update_append)
qed

lemma body_refines:
  assumes "head_of self i = Some trip" "length a = i" "length c = i" "length b = i" "i < 5"
  shows "TinySSD_forward_body E self i (pad (X, a, c, b))
         = and_then (ordered_forward_body E (i, trip) (X, a, c, b)) (\<lambda>s. ret (pad s))"
proof -
  obtain blk cls bbox where trip: "trip = (blk, cls, bbox)"
    by (cases trip)
  from assms(1) have g: "getattr self (''blk_'' @ str_of_nat i) = Inr blk"
    "getattr self (''cls_'' @ str_of_nat i) = Inr cls"
    "getattr self (''bbox_'' @ str_of_nat i) = Inr bbox"
    unfolding trip by (auto simp: head_of_def getattr_def split: option.splits)
  have "and_then (blk_forward E X blk sz rt cls bbox)
          (\<lambda>(Y, a', c', b'). ret (Y, (map Some a @ replicate (5 - length a) None)[i := Some a'],
             (map Some c @ replicate (5 - length c) None)[i := Some c'],
             (map Some b @ replicate (5 - length b) None)[i := Some b']))
        = and_then (blk_forward E X blk sz rt cls bbox)
          (\<lambda>(Y, a', c', b'). ret (pad (Y, a @ [a'], c @ [c'], b @ [b'])))" for sz rt
    using assms(2-5) by (simp add: update_pad pad_def Suc_diff_Suc)
  moreover have "py_get sizes i = Inr (sizes ! i)" "py_get ratios i = Inr (ratios ! i)"
    using assms(5) by (simp_all add: py_get_def sizes_def ratios_def)
  ultimately show ?thesis
    unfolding TinySSD_forward_body_def ordered_forward_body_def trip g pad_def
    by (simp add: and_then_assoc case_prod_unfold g)
qed


lemma and_then_cong_result:
  assumes "\<And>tr v tr'. m tr = Inr (v, tr') \<Longrightarrow> f v tr' = g v tr'"
  shows "and_then m f = and_then m g"
  using assms by (auto simp: and_then_def fun_eq_iff split: sum.splits)

lemma ordered_forward_body_result:
  assumes "ordered_forward_body E (i, trip) (X, a, c, b) tr = Inr (s', tr')"
  shows "\<exists>Y a' c' b'. s' = (Y, a @ [a'], c @ [c'], b @ [b'])"
  using assms
  by (auto simp: ordered_forward_body_def and_then_def ret_def lift_def raise_def
      split: sum.splits prod.splits)

lemma loop_refines:
  assumes "length hs = 5" "\<And>i. i < 5 \<Longrightarrow> head_of self i = Some (hs ! i)"
    and "length a = k" "length c = k" "length b = k" "k \<le> 5"
  shows "for_each [k..<5] (TinySSD_forward_body E self) (pad (X, a, c, b))
         = and_then (for_each (enumerate k (drop k hs)) (ordered_forward_body E) (X, a, c, b))
             (\<lambda>s. ret (pad s))"
  using assms(3-6)
proof (induction "5 - k" arbitrary: k X a c b)
  case 0
  then have "k = 5" by simp
  then show ?case using assms(1) by simp
next
  case (Suc n)
  then have k: "k < 5" by simp
  have upt: "[k..<5] = k # [Suc k..<5]"
    using k by (simp add: upt_conv_Cons)
  have drop: "drop k hs = hs ! k # drop (Suc k) hs"
    using k assms(1) by (simp add: Cons_nth_drop_Suc)
  have body: "TinySSD_forward_body E self k (pad (X, a, c, b))
      = and_then (ordered_forward_body E (k, hs ! k) (X, a, c, b)) (\<lambda>s. ret (pad s))"
    using Suc.prems k by (intro body_refines assms(2)) simp_all
  have step: "for_each [Suc k..<5] (TinySSD_forward_body E self) (pad s') tr'
      = and_then (for_each (enumerate (Suc k) (drop (Suc k) hs)) (ordered_forward_body E) s')
          (\<lambda>s. ret (pad s)) tr'"
    if "ordered_forward_body E (k, hs ! k) (X, a, c, b) tr = Inr (s', tr')" for tr s' tr'
  proof -
    from ordered_forward_body_result [OF that] obtain Y a' c' b'
      where s': "s' = (Y, a @ [a'], c @ [c'], b @ [b'])" by blast
    have "for_each [Suc k..<5] (TinySSD_forward_body E self) (pad (Y, a @ [a'], c @ [c'], b @ [b']))
      = and_then (for_each (enumerate (Suc k) (drop (Suc k) hs)) (ordered_forward_body E)
                    (Y, a @ [a'], c @ [c'], b @ [b']))
          (\<lambda>s. ret (pad s))"
      using Suc.hyps(2) Suc.prems k by (intro Suc.hyps(1)) simp_all
    then show ?thesis by (simp add: s')
  qed
  show ?case
    unfolding upt drop enumerate_simps for_each.simps body and_then_assoc
    by (rule and_then_cong_result) (simp add: step)
qed


lemma ordered_loop_lengths:
  assumes "for_each (enumerate k xs) (ordered_forward_body E) (X, a, c, b) tr = Inr (s', tr')"
  shows "\<exists>Y a' c' b'. s' = (Y, a', c', b') \<and> length a' = length a + length xs \<and>
           length c' = length c + length xs \<and> length b' = length b + length xs"
  using assms
proof (induction xs arbitrary: k X a c b tr)
  case Nil
  then show ?case by (auto simp: ret_def)
next
  case (Cons x xs)
  from Cons.prems obtain s1 tr1
    where 1: "ordered_forward_body E (k, x) (X, a, c, b) tr = Inr (s1, tr1)"
      and 2: "for_each (enumerate (Suc k) xs) (ordered_forward_body E) s1 tr1 = Inr (s', tr')"
    by (auto simp: and_then_def split: sum.splits)
  from ordered_forward_body_result [OF 1] obtain Y a1 c1 b1
    where s1: "s1 = (Y, a @ [a1], c @ [c1], b @ [b1])" by blast
  from Cons.IH [OF 2 [unfolded s1]] show ?case by auto
qed

lemma all_set_pad: "length xs = 5 \<Longrightarrow> all_set (map Some xs @ replicate (5 - length xs) None) = Inr xs"
  by (simp add: all_set_def list_all_iff comp_def)

lemma as_ordered_heads:
  assumes "as_ordered self = Some model"
  shows "length (heads model) = 5" "o_num_classes model = num_classes self"
    "i < 5 \<Longrightarrow> head_of self i = Some (heads model ! i)"
proof -
  from assms have ok: "list_all (\<lambda>h. h \<noteq> None) (map (head_of self) [0..<5])"
    and model: "model = \<lparr>o_num_classes = num_classes self,
                         heads = map the (map (head_of self) [0..<5])\<rparr>"
    by (auto simp: as_ordered_def Let_def split: if_splits)
  show "length (heads model) = 5" "o_num_classes model = num_classes self"
    by (simp_all add: model)
  show "head_of self i = Some (heads model ! i)" if "i < 5"
  proof -
    from ok that have "head_of self i \<noteq> None"
      by (simp add: list_all_iff)
    with that show ?thesis
      by (auto simp: model)
  qed
qed

text \<open>
  C5. Whatever the library answers, the forward pass of \<open>TinySSD\<close>, which reads its fifteen
  layers with \<open>getattr\<close> from the attributes \<open>blk_i\<close>, \<open>cls_i\<close>, \<open>bbox_i\<close>, is the same
  program as the forward pass of the model that holds the same layers in an ordered list
  of five triples: the same calls in the same order, the same result or exception.
\<close>

theorem TinySSD_forward_refines_ordered:
  assumes "as_ordered self = Some model"
  shows "TinySSD_forward E self X = ordered_forward E model X"
proof -
  note m = as_ordered_heads [OF assms]
  have init: "(X, replicate 5 None, replicate 5 None, replicate 5 None) = pad (X, [], [], [])"
    by (simp add: pad_def)
  have loop: "for_each [0..<5] (TinySSD_forward_body E self) (pad (X, [], [], []))
      = and_then (for_each (enumerate 0 (heads model)) (ordered_forward_body E) (X, [], [], []))
          (\<lambda>s. ret (pad s))"
    using loop_refines [of "heads model" self "[]" 0 "[]" "[]" E X] m by simp
  show ?thesis
    unfolding TinySSD_forward_def ordered_forward_def init loop and_then_assoc and_then_ret
  proof (rule and_then_cong_result)
    fix tr s' tr'
    assume "for_each (enumerate 0 (heads model)) (ordered_forward_body E) (X, [], [], []) tr
            = Inr (s', tr')"
    from ordered_loop_lengths [OF this] m(1) obtain Y a c b
      where s': "s' = (Y, a, c, b)" and len: "length a = 5" "length c = 5" "length b = 5"
      by auto
    show "(case pad s' of (X, anchors, cls_preds, bbox_preds) \<Rightarrow>
             and_then (lift (all_set anchors)) (\<lambda>al.
             and_then (call E (Concat al 1)) (\<lambda>anchors'.
             and_then (lift (all_set cls_preds)) (\<lambda>cl.
             and_then (concat_preds E cl) (\<lambda>flat.
             and_then (call E (Reshape flat [Keep, Infer, Dim (num_classes self + 1)])) (\<lambda>cls_preds'.
             and_then (lift (all_set bbox_preds)) (\<lambda>bl.
             and_then (concat_preds E bl) (\<lambda>bbox_preds'.
             ret (anchors', cls_preds', bbox_preds'))))))))) tr'
          = (case s' of (X, anchors, cls_preds, bbox_preds) \<Rightarrow>
             and_then (call E (Concat anchors 1)) (\<lambda>anchors'.
             and_then (concat_preds E cls_preds) (\<lambda>flat.
             and_then (call E (Reshape flat [Keep, Infer, Dim (o_num_classes model + 1)])) (\<lambda>cls_preds'.
             and_then (concat_preds E bbox_preds) (\<lambda>bbox_preds'.
             ret (anchors', cls_preds', bbox_preds')))))) tr'"
      using len all_set_pad [of a] all_set_pad [of c] all_set_pad [of b]
      by (simp add: s' pad_def m(2))
  qed
qed

theorem TinySSD_forward_refines_ordered_witness:
  "as_ordered (TinySSD_init 1)
     = Some \<lparr>o_num_classes = 1,
             heads = [(base_net, cls_predictor 4 1, bbox_predictor 4),
                      (down_sample_blk 128, cls_predictor 4 1, bbox_predictor 4),
                      (down_sample_blk 128, cls_predictor 4 1, bbox_predictor 4),
                      (down_sample_blk 128, cls_predictor 4 1, bbox_predictor 4),
                      (GlobalMaxPool2D, cls_predictor 4 1, bbox_predictor 4)]\<rparr> \<and>
   TinySSD_forward (shape_env None (\<lambda>h c. Inr 0)) (TinySSD_init 1) [32, 3, 256, 256]
     = ordered_forward (shape_env None (\<lambda>h c. Inr 0))
         \<lparr>o_num_classes = 1,
          heads = [(base_net, cls_predictor 4 1, bbox_predictor 4),
                   (down_sample_blk 128, cls_predictor 4 1, bbox_predictor 4),
                   (down_sample_blk 128, cls_predictor 4 1, bbox_predictor 4),
                   (down_sample_blk 128, cls_predictor 4 1, bbox_predictor 4),
                   (GlobalMaxPool2D, cls_predictor 4 1, bbox_predictor 4)]\<rparr>
         [32, 3, 256, 256]"
proof -
  have h: "as_ordered (TinySSD_init 1)
     = Some \<lparr>o_num_classes = 1,
             heads = [(base_net, cls_predictor 4 1, bbox_predictor 4),
                      (down_sample_blk 128, cls_predictor 4 1, bbox_predictor 4),
                      (down_sample_blk 128, cls_predictor 4 1, bbox_predictor 4),
                      (down_sample_blk 128, cls_predictor 4 1, bbox_predictor 4),
                      (GlobalMaxPool2D, cls_predictor 4 1, bbox_predictor 4)]\<rparr>"
    by (simp add: as_ordered_def head_of_def upt_5 str_of_nat_digit TinySSD_init_eq)
  from TinySSD_forward_refines_ordered [OF h] h show ?thesis
    by simp
qed

section \<open>Prediction keeps the rows that were not suppressed\<close>

lemma and_then_Inr:
  assumes "and_then m f tr = Inr r"
  obtains v tr1 where "m tr = Inr (v, tr1)" "f v tr1 = Inr r"
  using assms by (auto simp: and_then_def split: sum.splits)

lemma and_then_step: "m tr = Inr (v, tr1) \<Longrightarrow> and_then m f tr = f v tr1"
  by (simp add: and_then_def)

lemma call_Inr:
  assumes "call E c tr = Inr (v, tr')"
  shows "answer E tr c = Inr v" "tr' = tr @ [c]"
  using assms by (auto simp: call_def split: sum.splits)

lemma take_drop_row:
  fixes d :: "'a list"
  assumes "i < r" "length d = r * w"
  shows "length (take w (drop (i * w) d)) = w"
proof -
  have "Suc i * w \<le> r * w"
    using assms(1) by (intro mult_le_mono1) simp
  then show ?thesis using assms(2) by simp
qed

lemma getitem_row:
  assumes "shape a = [r, w]" "length (data a) = r * w" "i < r" "0 < w"
  shows "nd_getitem a i = Inr \<lparr>shape = [w], data = take w (drop (i * w) (data a))\<rparr>"
  using assms by (simp add: nd_getitem_def getitem_shape_def)

lemma getitem_first_entry:
  assumes "length row = w" "0 < w"
  shows "nd_getitem \<lparr>shape = [w], data = row\<rparr> 0 = Inr \<lparr>shape = [1], data = [row ! 0]\<rparr>"
  using assms by (cases row) (simp_all add: nd_getitem_def getitem_shape_def)

lemma row_first_entry:
  fixes d :: "'a list"
  assumes "i < r" "length d = r * w" "0 < w"
  shows "take w (drop (i * w) d) ! 0 = d ! (i * w)"
proof -
  have "i * w < r * w"
    using assms(1,3) by simp
  then show ?thesis using assms by simp
qed

lemma keep_row_result:
  assumes "shape a = [r, w]" "length (data a) = r * w" "i < r" "0 < w"
  shows "keep_row (nd_env oe P) a i idx tr
         = Inr (if data a ! (i * w) \<noteq> - 1 then idx @ [i] else idx,
                tr @ [GetItem a i, GetItem \<lparr>shape = [w], data = take w (drop (i * w) (data a))\<rparr> 0,
                      AsScalar \<lparr>shape = [1], data = [data a ! (i * w)]\<rparr>])"
proof -
  have len: "length (take w (drop (i * w) (data a))) = w"
    using assms by (intro take_drop_row)
  show ?thesis
    using getitem_row [OF assms] getitem_first_entry [OF len assms(4)]
      row_first_entry [OF assms(3) assms(2) assms(4)]
    by (simp add: keep_row_def and_then_def call_def nd_env_def asscalar_def call_scalar_def
        nd_asscalar_def
        ret_def)
qed

lemma kept_rows_loop:
  assumes "shape a = [r, w]" "length (data a) = r * w" "0 < w" "\<forall>i \<in> set js. i < r"
  shows "\<exists>tr'. for_each js (keep_row (nd_env oe P) a) idx tr
         = Inr (idx @ filter (\<lambda>i. data a ! (i * w) \<noteq> - 1) js, tr')"
  using assms(4)
proof (induction js arbitrary: idx tr)
  case Nil
  then show ?case by (simp add: ret_def)
next
  case (Cons j js)
  then have j: "j < r" and js: "\<forall>i \<in> set js. i < r" by simp_all
  note b = keep_row_result [OF assms(1,2) j assms(3), of oe P idx tr]
  from Cons.IH [OF js, of "if data a ! (j * w) \<noteq> - 1 then idx @ [j] else idx"
      "tr @ [GetItem a j, GetItem \<lparr>shape = [w], data = take w (drop (j * w) (data a))\<rparr> 0,
             AsScalar \<lparr>shape = [1], data = [data a ! (j * w)]\<rparr>]"]
  obtain tr' where "for_each js (keep_row (nd_env oe P) a)
      (if data a ! (j * w) \<noteq> - 1 then idx @ [j] else idx)
      (tr @ [GetItem a j, GetItem \<lparr>shape = [w], data = take w (drop (j * w) (data a))\<rparr> 0,
             AsScalar \<lparr>shape = [1], data = [data a ! (j * w)]\<rparr>])
     = Inr ((if data a ! (j * w) \<noteq> - 1 then idx @ [j] else idx)
            @ filter (\<lambda>i. data a ! (i * w) \<noteq> - 1) js, tr')"
    by blast
  then have "for_each (j # js) (keep_row (nd_env oe P) a) idx tr
     = Inr (idx @ filter (\<lambda>i. data a ! (i * w) \<noteq> - 1) (j # js), tr')"
    unfolding for_each.simps and_then_def b by simp
  then show ?case by blast
qed

lemma kept_rows_result:
  assumes "shape a = [r, w]" "length (data a) = r * w" "0 < w"
  shows "\<exists>tr'. kept_rows (nd_env oe P) a tr
           = Inr (filter (\<lambda>i. data a ! (i * w) \<noteq> - 1) [0..<r], tr')"
proof -
  have "len (nd_env oe P) a = r"
    using assms(1) by (simp add: nd_env_def)
  then show ?thesis
    using kept_rows_loop [OF assms, of "[0..<r]" oe P "[]" tr]
    by (simp add: kept_rows_def)
qed


lemma chunk_of_concat:
  assumes "\<forall>ys \<in> set yss. length ys = w" "i < length yss"
  shows "take w (drop (i * w) (concat yss)) = yss ! i"
  using assms
proof (induction yss arbitrary: i)
  case Nil
  then show ?case by simp
next
  case (Cons ys yss)
  show ?case
  proof (cases i)
    case 0
    with Cons.prems show ?thesis by simp
  next
    case (Suc i')
    with Cons.prems have "take w (drop (i' * w) (concat yss)) = yss ! i'"
      by (intro Cons.IH) simp_all
    with Cons.prems Suc show ?thesis by simp
  qed
qed

lemma rows_of_concat:
  assumes "\<forall>j \<in> set idx. length (g j) = w"
  shows "rows_of \<lparr>shape = [length idx, w], data = concat (map g idx)\<rparr> = map g idx"
proof -
  have "take w (drop (i * w) (concat (map g idx))) = g (idx ! i)" if "i < length idx" for i
    using chunk_of_concat [of "map g idx" w i] assms that by simp
  then show ?thesis
    by (auto simp: rows_of_def intro!: nth_equalityI)
qed

lemma row_of_prefix:
  fixes d :: "'a list"
  assumes "i < r"
  shows "take w (drop (i * w) (take (r * w) d)) = take w (drop (i * w) d)"
proof -
  have "Suc i * w \<le> r * w"
    using assms by (intro mult_le_mono1) simp
  then have "w \<le> r * w - i * w" by simp
  then show ?thesis
    by (simp add: drop_take min_def)
qed

lemma predict_rows:
  assumes "valid_nd output" "shape output = [n, r, w]" "0 < w"
    and "nd_getitem output 0 = Inr out0"
    and "kept_rows (nd_env oe P) out0 tr = Inr (idx, tr1)"
    and "nd_take oe output 0 idx = Inr out"
  shows "rows_of out = filter (\<lambda>row. row ! 0 \<noteq> - 1) (rows_of out0)"
proof -
  let ?d = "data output"
  let ?g = "\<lambda>j. take w (drop (j * w) ?d)"
  from assms(1,2) have pos: "0 < n" "0 < r" and len: "length ?d = n * r * w"
    by (simp_all add: valid_nd_def valid_shape_def)
  from assms(4) pos have out0: "out0 = \<lparr>shape = [r, w], data = take (r * w) ?d\<rparr>"
    by (simp add: nd_getitem_def getitem_shape_def assms(2))
  have "r * w \<le> n * (r * w)"
    using pos by simp
  then have len0: "length (data out0) = r * w"
    by (simp add: out0 len mult.assoc)
  have sh0: "shape out0 = [r, w]"
    by (simp add: out0)
  from kept_rows_result [OF sh0 len0 assms(3), of oe P tr] assms(5)
  have idx: "idx = filter (\<lambda>i. data out0 ! (i * w) \<noteq> - 1) [0..<r]"
    by auto
  then have bound: "\<forall>j \<in> set idx. j < r"
    by simp
  from assms(6) have out: "out = \<lparr>shape = [length idx, w], data = concat (map ?g idx)\<rparr>"
    using bound pos unfolding nd_take_def take_shape_def assms(2)
    by (auto simp: list_all_iff Let_def split: if_splits option.splits)
  have glen: "length (?g j) = w" if "j < r" for j
  proof -
    have "length (take w (drop (j * w) (take (r * w) ?d))) = w"
      using that len0 by (intro take_drop_row [where r = r]) (simp_all add: out0)
    then show ?thesis
      using that by (simp only: row_of_prefix)
  qed
  have rows: "rows_of out = map ?g idx"
    unfolding out using bound glen by (intro rows_of_concat) simp
  have rows0: "rows_of out0 = map ?g [0..<r]"
    by (simp add: rows_of_def out0 row_of_prefix)
  have first: "?g i ! 0 = data out0 ! (i * w)" if "i < r" for i
  proof -
    have "i * w < r * w" using that assms(3) by simp
    moreover have "take w (drop (i * w) (data out0)) ! 0 = data out0 ! (i * w)"
      using that len0 assms(3) by (intro row_first_entry [where r = r])
    ultimately show ?thesis
      using that by (simp add: out0 row_of_prefix)
  qed
  have "filter (\<lambda>row. row ! 0 \<noteq> - 1) (map ?g [0..<r])
        = map ?g (filter (\<lambda>i. data out0 ! (i * w) \<noteq> - 1) [0..<r])"
    unfolding filter_map comp_def
    by (rule arg_cong [where f = "map ?g"], rule filter_cong) (simp_all add: first)
  then show ?thesis
    by (simp add: rows rows0 idx)
qed


text \<open>
  C9. The array that \<open>predict\<close> returns holds the rows of the first image's detections
  whose class id (entry 0) is not \<open>-1\<close>, in their original order: the rows that
  non-maximum suppression marked with \<open>-1\<close> are gone, and no returned row has class id
  \<open>-1\<close>. The detection operator is any that returns, as documented, an array of shape
  \<open>(batch, anchors, 6)\<close>.
\<close>

theorem predict_drops_suppressed_rows:
  assumes "\<forall>h cp bp an v. P h (MultiBoxDetection cp bp an) = Inr v
             \<longrightarrow> valid_nd v \<and> (\<exists>n r. shape v = [n, r, 6])"
    and "predict (nd_env on_empty P) net X tr = Inr (out, tr')"
  shows "\<exists>h cp bp an output out0.
           P h (MultiBoxDetection cp bp an) = Inr output \<and> nd_getitem output 0 = Inr out0 \<and>
           rows_of out = filter (\<lambda>row. row ! 0 \<noteq> - 1) (rows_of out0) \<and>
           (\<forall>row \<in> set (rows_of out). row ! 0 \<noteq> - 1)"
proof -
  let ?E = "nd_env on_empty P"
  from assms(2) obtain X' t1 where "call ?E (AsInContext X) tr = Inr (X', t1)"
    and r1: "and_then (TinySSD_forward ?E net X') (\<lambda>(anchors, cls_preds, bbox_preds).
     and_then (call ?E (Softmax cls_preds)) (\<lambda>sm.
     and_then (call ?E (Transpose sm [0, 2, 1])) (\<lambda>cls_probs.
     and_then (call ?E (MultiBoxDetection cls_probs bbox_preds anchors)) (\<lambda>output.
     and_then (call ?E (GetItem output 0)) (\<lambda>out0.
     and_then (kept_rows ?E out0) (\<lambda>idx.
     call ?E (Take output 0 idx))))))) t1 = Inr (out, tr')"
    unfolding predict_def by (rule and_then_Inr)
  from r1 obtain fw t2 where "TinySSD_forward ?E net X' t1 = Inr (fw, t2)"
    and r2: "(case fw of (anchors, cls_preds, bbox_preds) \<Rightarrow>
     and_then (call ?E (Softmax cls_preds)) (\<lambda>sm.
     and_then (call ?E (Transpose sm [0, 2, 1])) (\<lambda>cls_probs.
     and_then (call ?E (MultiBoxDetection cls_probs bbox_preds anchors)) (\<lambda>output.
     and_then (call ?E (GetItem output 0)) (\<lambda>out0.
     and_then (kept_rows ?E out0) (\<lambda>idx.
     call ?E (Take output 0 idx))))))) t2 = Inr (out, tr')"
    by (rule and_then_Inr)
  obtain anchors cls_preds bbox_preds where fw: "fw = (anchors, cls_preds, bbox_preds)"
    by (cases fw)
  from r2 [unfolded fw prod.case] obtain sm t3 where "call ?E (Softmax cls_preds) t2 = Inr (sm, t3)"
    and r3: "and_then (call ?E (Transpose sm [0, 2, 1])) (\<lambda>cls_probs.
     and_then (call ?E (MultiBoxDetection cls_probs bbox_preds anchors)) (\<lambda>output.
     and_then (call ?E (GetItem output 0)) (\<lambda>out0.
     and_then (kept_rows ?E out0) (\<lambda>idx.
     call ?E (Take output 0 idx))))) t3 = Inr (out, tr')"
    by (rule and_then_Inr)
  from r3 obtain cls_probs t4 where "call ?E (Transpose sm [0, 2, 1]) t3 = Inr (cls_probs, t4)"
    and r4: "and_then (call ?E (MultiBoxDetection cls_probs bbox_preds anchors)) (\<lambda>output.
     and_then (call ?E (GetItem output 0)) (\<lambda>out0.
     and_then (kept_rows ?E out0) (\<lambda>idx.
     call ?E (Take output 0 idx)))) t4 = Inr (out, tr')"
    by (rule and_then_Inr)
  from r4 obtain dets t5
    where c5: "call ?E (MultiBoxDetection cls_probs bbox_preds anchors) t4 = Inr (dets, t5)"
    and r5: "and_then (call ?E (GetItem dets 0)) (\<lambda>out0.
     and_then (kept_rows ?E out0) (\<lambda>idx.
     call ?E (Take dets 0 idx))) t5 = Inr (out, tr')"
    by (rule and_then_Inr)
  from r5 obtain out0 t6 where c6: "call ?E (GetItem dets 0) t5 = Inr (out0, t6)"
    and r6: "and_then (kept_rows ?E out0) (\<lambda>idx. call ?E (Take dets 0 idx)) t6 = Inr (out, tr')"
    by (rule and_then_Inr)
  from r6 obtain idx t7 where c7: "kept_rows ?E out0 t6 = Inr (idx, t7)"
    and c8: "call ?E (Take dets 0 idx) t7 = Inr (out, tr')"
    by (rule and_then_Inr)
  from call_Inr(1) [OF c5] have det: "P t4 (MultiBoxDetection cls_probs bbox_preds anchors) = Inr dets"
    by (simp add: nd_env_def)
  from call_Inr(1) [OF c6] have get: "nd_getitem dets 0 = Inr out0"
    by (simp add: nd_env_def)
  from call_Inr(1) [OF c8] have take: "nd_take on_empty dets 0 idx = Inr out"
    by (simp add: nd_env_def)
  from assms(1) det obtain n r where v: "valid_nd dets" and sh: "shape dets = [n, r, 6]"
    by blast
  have rows: "rows_of out = filter (\<lambda>row. row ! 0 \<noteq> - 1) (rows_of out0)"
    using v sh _ get c7 take by (rule predict_rows) simp
  then have "\<forall>row \<in> set (rows_of out). row ! 0 \<noteq> - 1"
    by simp
  with det get rows show ?thesis by blast
qed

lemma toy_library_detections:
  "\<forall>h cp bp an v. toy_library h (MultiBoxDetection cp bp an) = Inr v
     \<longrightarrow> valid_nd v \<and> (\<exists>n r. shape v = [n, r, 6])"
  by (auto simp: valid_nd_def valid_shape_def)

lemma toy_predict:
  "map_sum id fst (predict (nd_env None toy_library) (TinySSD_init 0)
                     \<lparr>shape = [1, 1, 1, 1], data = [0]\<rparr> [])
   = Inr \<lparr>shape = [2, 6], data = [0, 0.9, 0, 0, 1, 1,  0, 0.7, 0, 0, 1, 1]\<rparr>"
  by code_simp


theorem predict_drops_suppressed_rows_witness:
  "map_sum id fst (predict (nd_env None toy_library) (TinySSD_init 0)
                     \<lparr>shape = [1, 1, 1, 1], data = [0]\<rparr> [])
     = Inr \<lparr>shape = [2, 6], data = [0, 0.9, 0, 0, 1, 1,  0, 0.7, 0, 0, 1, 1]\<rparr> \<and>
   list_all (\<lambda>row. row ! 0 \<noteq> - 1)
     (rows_of \<lparr>shape = [2, 6], data = [0, 0.9, 0, 0, 1, 1,  0, 0.7, 0, 0, 1, 1]\<rparr>)"
proof -
  let ?out = "\<lparr>shape = [2, 6], data = [0, 0.9, 0, 0, 1, 1,  0, 0.7, 0, 0, 1, 1]\<rparr>"
  from toy_predict obtain tr' where
    run: "predict (nd_env None toy_library) (TinySSD_init 0) \<lparr>shape = [1, 1, 1, 1], data = [0]\<rparr> []
          = Inr (?out, tr')"
    by (cases "predict (nd_env None toy_library) (TinySSD_init 0)
                 \<lparr>shape = [1, 1, 1, 1], data = [0]\<rparr> []") auto
  from predict_drops_suppressed_rows [OF toy_library_detections run]
  have "\<forall>row \<in> set (rows_of ?out). row ! 0 \<noteq> - 1"
    by blast
  with toy_predict show ?thesis
    by (simp add: list_all_iff)
qed

section \<open>The layout of concatenated predictions\<close>

lemma div_mod_block:
  fixes a m r :: nat
  assumes "r < m"
  shows "(a * m + r) div m = a" "(a * m + r) mod m = r"
  using assms by simp_all

lemma unravel_nhwc:
  assumes "y < h" "x < w" "ch < c"
  shows "unravel [N, h, w, c] (((n * h + y) * w + x) * c + ch) = [n, y, x, ch]"
proof -
  have 1: "x * c + ch < w * c"
  proof -
    have "x * c + ch < x * c + c" using assms(3) by simp
    also have "\<dots> = Suc x * c" by simp
    also have "\<dots> \<le> w * c" using assms(2) by (intro mult_le_mono1) simp
    finally show ?thesis .
  qed
  have 2: "y * (w * c) + (x * c + ch) < h * (w * c)"
  proof -
    have "y * (w * c) + (x * c + ch) < y * (w * c) + w * c" using 1 by simp
    also have "\<dots> = Suc y * (w * c)" by simp
    also have "\<dots> \<le> h * (w * c)" using assms(1) by (intro mult_le_mono1) simp
    finally show ?thesis .
  qed
  have k: "((n * h + y) * w + x) * c + ch = n * (h * (w * c)) + (y * (w * c) + (x * c + ch))"
    by (simp add: algebra_simps)
  have a: "(n * (h * (w * c)) + (y * (w * c) + (x * c + ch))) div (h * (w * c)) = n"
    "(n * (h * (w * c)) + (y * (w * c) + (x * c + ch))) mod (h * (w * c))
       = y * (w * c) + (x * c + ch)"
    using div_mod_block [OF 2, of n] by simp_all
  have b: "(y * (w * c) + (x * c + ch)) div (w * c) = y"
    "(y * (w * c) + (x * c + ch)) mod (w * c) = x * c + ch"
    using div_mod_block [OF 1, of y] by simp_all
  have c: "(x * c + ch) div c = x" "(x * c + ch) mod c = ch"
    using div_mod_block [OF assms(3), of x] by simp_all
  have "unravel [N, h, w, c] k
        = [k div (h * (w * c)), k mod (h * (w * c)) div (w * c),
           k mod (h * (w * c)) mod (w * c) div c, k mod (h * (w * c)) mod (w * c) mod c]" for k
    by simp
  then show ?thesis
    unfolding k by (simp only: a b c)
qed

lemma index_of_0231:
  "index_of 0 [0, 2, 3, Suc 0] = 0" "index_of (Suc 0) [0, 2, 3, Suc 0] = 3"
  "index_of 2 [0, 2, 3, Suc 0] = 1" "index_of 3 [0, 2, 3, Suc 0] = 2"
  by (simp_all add: index_of_def)

lemma flat_position_bound:
  fixes n N y h x w ch c :: nat
  assumes "n < N" "y < h" "x < w" "ch < c"
  shows "((n * h + y) * w + x) * c + ch < N * (h * (w * c))"
proof -
  have "(n * h + y) * w + x < (n * h + y) * w + w" using assms(3) by simp
  also have "\<dots> = Suc (n * h + y) * w" by simp
  also have "\<dots> \<le> (Suc n * h) * w" using assms(2) by (intro mult_le_mono1) simp
  also have "\<dots> \<le> (N * h) * w" using assms(1) by (intro mult_le_mono1) simp
  finally have 1: "(n * h + y) * w + x < N * h * w" .
  have "((n * h + y) * w + x) * c + ch < ((n * h + y) * w + x) * c + c" using assms(4) by simp
  also have "\<dots> = Suc ((n * h + y) * w + x) * c" by simp
  also have "\<dots> \<le> (N * h * w) * c" using 1 by (intro mult_le_mono1) simp
  finally show ?thesis by (simp add: mult.assoc)
qed

lemma nd_transpose_0231:
  assumes "valid_nd a" "shape a = [N, c, h, w]"
  shows "\<exists>t. nd_transpose a [0, 2, 3, 1] = Inr t \<and> shape t = [N, h, w, c] \<and>
           length (data t) = N * (h * (w * c)) \<and>
           (\<forall>n<N. \<forall>y<h. \<forall>x<w. \<forall>ch<c.
              data t ! (((n * h + y) * w + x) * c + ch)
                = data a ! (((n * c + ch) * h + y) * w + x))"
proof -
  have upt: "[0..<length [N, c, h, w]] = [0, 1, 2, 3]"
    by (simp add: upt_4)
  from assms have ts: "transpose_shape [N, c, h, w] [0, 2, 3, 1] = Inr [N, h, w, c]"
    unfolding transpose_shape_def upt by (simp add: valid_nd_def)
  define t where "t = \<lparr>shape = [N, h, w, c],
     data = map (\<lambda>k. let j = unravel [N, h, w, c] k
                      in data a ! ravel [N, c, h, w]
                           (map (\<lambda>d. j ! index_of d [0, 2, 3, 1]) [0, 1, 2, 3]))
              [0..<prod_list [N, h, w, c]]\<rparr>"
  have tr: "nd_transpose a [0, 2, 3, 1] = Inr t"
    unfolding nd_transpose_def ts t_def assms(2) upt by simp
  have entry: "data t ! (((n * h + y) * w + x) * c + ch) = data a ! (((n * c + ch) * h + y) * w + x)"
    if "n < N" "y < h" "x < w" "ch < c" for n y x ch
  proof -
    have lt: "((n * h + y) * w + x) * c + ch < prod_list [N, h, w, c]"
      using flat_position_bound [OF that] by simp
    have "ravel [N, c, h, w] [n, ch, y, x] = ((n * c + ch) * h + y) * w + x"
      by (simp add: algebra_simps)
    then show ?thesis
      unfolding t_def using lt
      by (simp add: unravel_nhwc [OF that(2-4)] index_of_0231 Let_def del: unravel.simps ravel.simps)
  qed
  show ?thesis
    using tr entry by (intro exI [of _ t]) (simp add: t_def)
qed


lemma flatten_pred_is_flat:
  assumes "valid_nd p" "shape p = [N, c, h, w]"
  shows "\<exists>f tr'. flatten_pred (nd_env oe P) p tr = Inr (f, tr') \<and> is_flat_of p f"
proof -
  from nd_transpose_0231 [OF assms] obtain t
    where t: "nd_transpose p [0, 2, 3, 1] = Inr t" "shape t = [N, h, w, c]"
      "length (data t) = N * (h * (w * c))"
      and e: "\<And>n y x ch. n < N \<Longrightarrow> y < h \<Longrightarrow> x < w \<Longrightarrow> ch < c \<Longrightarrow>
              data t ! (((n * h + y) * w + x) * c + ch) = data p ! (((n * c + ch) * h + y) * w + x)"
    by blast
  from assms have pos: "0 < N" "0 < c" "0 < h" "0 < w"
    by (simp_all add: valid_nd_def valid_shape_def)
  define f where "f = \<lparr>shape = [N, h * (w * c)], data = data t\<rparr>"
  have fl: "nd_flatten t = Inr f"
    using pos by (simp add: nd_flatten_def flatten_shape_def t(2) valid_shape_def f_def)
  have run: "flatten_pred (nd_env oe P) p tr
             = Inr (f, tr @ [Transpose p [0, 2, 3, 1], Flatten t])"
    using t(1) fl by (simp add: flatten_pred_def and_then_def call_def nd_env_def)
  have k: "n * (h * (w * c)) + ((y * w + x) * c + ch) = ((n * h + y) * w + x) * c + ch"
    for n y x ch
    by (simp add: algebra_simps)
  have "is_flat_of p f"
    using pos e by (simp add: is_flat_of_def assms(2) f_def t(3) flat_len_def k)
  with run show ?thesis by blast
qed

lemma map_prog_flatten_pred:
  assumes "\<forall>p \<in> set preds. valid_nd p \<and> (\<exists>c h w. shape p = [N, c, h, w])"
  shows "\<exists>fs tr'. map_prog (flatten_pred (nd_env oe P)) preds tr = Inr (fs, tr') \<and>
           list_all2 is_flat_of preds fs"
  using assms
proof (induction preds arbitrary: tr)
  case Nil
  then show ?case by (simp add: ret_def)
next
  case (Cons p ps)
  then obtain c h w where p: "valid_nd p" "shape p = [N, c, h, w]" by auto
  from flatten_pred_is_flat [OF p, of oe P tr] obtain f t1
    where f: "flatten_pred (nd_env oe P) p tr = Inr (f, t1)" "is_flat_of p f" by blast
  from Cons.IH [of t1] Cons.prems obtain fs t2
    where fs: "map_prog (flatten_pred (nd_env oe P)) ps t1 = Inr (fs, t2)" "list_all2 is_flat_of ps fs"
    by auto
  have "map_prog (flatten_pred (nd_env oe P)) (p # ps) tr = Inr (f # fs, t2)"
    by (simp add: and_then_def f(1) fs(1) ret_def)
  with f(2) fs(2) show ?case by auto
qed


lemma nth_concat_offset:
  assumes "i < length yss" "r < length (yss ! i)"
  shows "concat yss ! (sum_list (map length (take i yss)) + r) = yss ! i ! r"
  using assms
proof (induction yss arbitrary: i)
  case Nil
  then show ?case by simp
next
  case (Cons ys yss)
  show ?case
  proof (cases i)
    case 0
    with Cons.prems show ?thesis by (simp add: nth_append)
  next
    case (Suc i')
    with Cons.prems have "concat yss ! (sum_list (map length (take i' yss)) + r) = yss ! i' ! r"
      by (intro Cons.IH) simp_all
    with Suc show ?thesis by (simp add: nth_append add.assoc)
  qed
qed

lemma nth_concat_uniform:
  assumes "\<forall>ys \<in> set yss. length ys = w" "i < length yss" "r < w"
  shows "concat yss ! (i * w + r) = yss ! i ! r"
proof -
  have "sum_list (map length (take i yss)) = i * w"
  proof -
    have "map length (take i yss) = replicate i w"
      using assms(1,2) by (intro replicate_eqI) (auto dest: in_set_takeD)
    then show ?thesis by (simp add: sum_list_replicate)
  qed
  moreover have "r < length (yss ! i)"
    using assms by simp
  ultimately show ?thesis
    using nth_concat_offset [OF assms(2), of r] by simp
qed

lemma nd_concat_flat:
  fixes fs :: "ndarray list"
  assumes "fs \<noteq> []" "\<forall>f \<in> set fs. \<exists>L. shape f = [N, L] \<and> 0 < L" "0 < N"
  shows "nd_concat fs 1
         = Inr \<lparr>shape = [N, sum_list (map (\<lambda>f. shape f ! 1) fs)],
                data = concat (map (\<lambda>outer.
                         concat (map (\<lambda>f. take (shape f ! 1) (drop (outer * (shape f ! 1)) (data f)))
                                   fs))
                         [0..<N])\<rparr>"
proof -
  from assms(1) obtain f0 rest where fs: "fs = f0 # rest"
    by (cases fs) auto
  from assms(2) obtain L0 where f0: "shape f0 = [N, L0]" "0 < L0"
    by (auto simp: fs)
  have v: "list_all valid_shape (map shape fs)"
    using assms(2,3) by (auto simp: list_all_iff valid_shape_def)
  have same: "list_all (\<lambda>s. length s = length (shape f0) \<and> s[1 := 0] = (shape f0)[1 := 0])
                (map shape rest)"
    using assms(2) by (auto simp: list_all_iff fs f0)
  have cs: "concat_shape (map shape fs) 1 = Inr [N, sum_list (map (\<lambda>f. shape f ! 1) fs)]"
    using v same unfolding concat_shape_def fs
    by (simp add: f0 comp_def)
  have chunk: "prod_list (drop 1 (shape f)) = shape f ! 1" if "f \<in> set fs" for f
    using assms(2) that by auto
  have "concat (map (\<lambda>f. let chunk = prod_list (drop 1 (shape f))
                   in take chunk (drop (outer * chunk) (data f))) fs)
        = concat (map (\<lambda>f. take (shape f ! 1) (drop (outer * (shape f ! 1)) (data f))) fs)" for outer
    by (rule arg_cong [where f = concat], rule map_cong) (simp_all add: chunk Let_def del: One_nat_def)
  moreover have "prod_list (take 1 [N, m]) = N" for m
    by simp
  ultimately show ?thesis
    unfolding nd_concat_def cs by (simp del: One_nat_def)
qed


lemma prefix_sum_bound:
  fixes g :: "'a \<Rightarrow> nat"
  assumes "i < length xs"
  shows "sum_list (map g (take i xs)) + g (xs ! i) \<le> sum_list (map g xs)"
proof -
  have "xs = take i xs @ xs ! i # drop (Suc i) xs"
    using assms by (rule id_take_nth_drop)
  then have "sum_list (map g xs)
             = sum_list (map g (take i xs)) + g (xs ! i) + sum_list (map g (drop (Suc i) xs))"
    by (metis append_Cons append_Nil list.simps(9) map_append sum_list.Cons sum_list.append
        add.assoc)
  then show ?thesis by simp
qed

lemma concat_flat_entry:
  fixes fs :: "ndarray list"
  assumes "\<forall>f \<in> set fs. \<exists>L. shape f = [N, L] \<and> length (data f) = N * L"
    and "n < N" "i < length fs" "r < shape (fs ! i) ! 1"
  shows "concat (map (\<lambda>outer.
           concat (map (\<lambda>f. take (shape f ! 1) (drop (outer * (shape f ! 1)) (data f))) fs))
           [0..<N])
         ! (n * sum_list (map (\<lambda>f. shape f ! 1) fs)
            + (sum_list (map (\<lambda>f. shape f ! 1) (take i fs)) + r))
         = data (fs ! i) ! (n * (shape (fs ! i) ! 1) + r)"
proof -
  define L where "L = (\<lambda>f :: ndarray. shape f ! 1)"
  define piece where "piece = (\<lambda>outer f. take (L f) (drop (outer * L f) (data f)))"
  define row where "row = (\<lambda>outer. concat (map (piece outer) fs))"
  have len: "length (data f) = N * L f" if "f \<in> set fs" for f
    using assms(1) that by (auto simp: L_def)
  have piece_len: "length (piece outer f) = L f" if "outer < N" "f \<in> set fs" for outer f
    unfolding piece_def using that(1) len [OF that(2)] by (rule take_drop_row)
  have row_len: "length (row outer) = sum_list (map L fs)" if "outer < N" for outer
  proof -
    have eq: "map (length \<circ> piece outer) fs = map L fs"
      using piece_len [OF that] by (intro map_cong) simp_all
    have "length (row outer) = sum_list (map (length \<circ> piece outer) fs)"
      by (simp add: row_def length_concat)
    then show ?thesis
      by (simp only: eq)
  qed
  have off: "sum_list (map L (take i fs)) + r < sum_list (map L fs)"
    using prefix_sum_bound [OF assms(3), of L] assms(4) by (simp add: L_def)
  have "concat (map row [0..<N]) ! (n * sum_list (map L fs) + (sum_list (map L (take i fs)) + r))
        = map row [0..<N] ! n ! (sum_list (map L (take i fs)) + r)"
    using row_len assms(2) off by (intro nth_concat_uniform) auto
  also have "\<dots> = row n ! (sum_list (map L (take i fs)) + r)"
    using assms(2) by simp
  also have "\<dots> = map (piece n) fs ! i ! r"
  proof -
    have "map length (take i (map (piece n) fs)) = map L (take i fs)"
      using piece_len [OF assms(2)] by (auto simp: take_map dest: in_set_takeD)
    moreover have "r < length (map (piece n) fs ! i)"
      using piece_len [OF assms(2)] assms(3,4) by (simp add: L_def)
    ultimately show ?thesis
      unfolding row_def using nth_concat_offset [of i "map (piece n) fs" r] assms(3) by simp
  qed
  also have "\<dots> = data (fs ! i) ! (n * L (fs ! i) + r)"
  proof -
    have "Suc n * L (fs ! i) \<le> N * L (fs ! i)"
      using assms(2) by (intro mult_le_mono1) simp
    then have "n * L (fs ! i) + r < length (data (fs ! i))"
      using assms(3,4) len [of "fs ! i"] by (simp add: L_def)
    then show ?thesis
      using assms(3,4) by (simp add: piece_def L_def)
  qed
  finally show ?thesis
    by (simp add: row_def piece_def L_def)
qed


lemma is_flat_ofD:
  assumes "is_flat_of p f" "shape p = [N, c, h, w]"
  shows "shape f = [N, h * (w * c)]" "length (data f) = N * (h * (w * c))" "0 < N"
    "0 < h * (w * c)" "flat_len p = h * (w * c)"
    "\<And>n y x ch. n < N \<Longrightarrow> y < h \<Longrightarrow> x < w \<Longrightarrow> ch < c \<Longrightarrow>
       data f ! (n * (h * (w * c)) + ((y * w + x) * c + ch))
         = data p ! (((n * c + ch) * h + y) * w + x)"
  using assms by (simp_all add: is_flat_of_def)

text \<open>
  C4. For a non-empty list of four-dimensional prediction arrays with the same batch size
  \<open>N\<close> (channels, heights and widths may differ), \<open>concat_preds\<close> returns a two-dimensional
  array of shape \<open>(N, \<Sum> h\<^sub>i w\<^sub>i c\<^sub>i)\<close>; in row \<open>n\<close> the predictions of the scales follow each
  other in list order, and within scale \<open>i\<close> the entry \<open>(n, ch, y, x)\<close> of the array sits at
  \<open>(y w\<^sub>i + x) c\<^sub>i + ch\<close>: the channel axis is last and the example is flattened.
\<close>

theorem concat_preds_layout:
  assumes "preds \<noteq> []"
    and "\<forall>p \<in> set preds. valid_nd p \<and> (\<exists>c h w. shape p = [N, c, h, w])"
  shows "\<exists>out tr'.
           concat_preds (nd_env on_empty P) preds tr = Inr (out, tr') \<and>
           valid_nd out \<and> shape out = [N, sum_list (map flat_len preds)] \<and>
           (\<forall>i<length preds. \<forall>c h w. shape (preds ! i) = [N, c, h, w] \<longrightarrow>
              (\<forall>n<N. \<forall>y<h. \<forall>x<w. \<forall>ch<c.
                 entry out [n, sum_list (map flat_len (take i preds)) + ((y * w + x) * c + ch)]
                   = entry (preds ! i) [n, ch, y, x]))"
proof -
  let ?E = "nd_env on_empty P"
  from map_prog_flatten_pred [OF assms(2), of on_empty P tr] obtain fs t1
    where run: "map_prog (flatten_pred ?E) preds tr = Inr (fs, t1)"
      and flat: "list_all2 is_flat_of preds fs"
    by blast
  from flat have len: "length fs = length preds"
    by (simp add: list_all2_lengthD)
  have nth: "is_flat_of (preds ! i) (fs ! i)" if "i < length preds" for i
    using flat that by (simp add: list_all2_nthD)
  have shp: "\<exists>c h w. shape (preds ! i) = [N, c, h, w]" if "i < length preds" for i
    using assms(2) that by simp
  have L: "shape (fs ! i) = [N, flat_len (preds ! i)] \<and>
           length (data (fs ! i)) = N * flat_len (preds ! i) \<and> 0 < flat_len (preds ! i) \<and> 0 < N"
    if "i < length preds" for i
  proof -
    from shp [OF that] obtain c h w where s: "shape (preds ! i) = [N, c, h, w]" by blast
    from is_flat_ofD(1-5) [OF nth [OF that] s] show ?thesis by simp
  qed
  from assms(1) have N: "0 < N"
    using L [of 0] by (cases preds) auto
  have lens: "map (\<lambda>f. shape f ! 1) fs = map flat_len preds"
    using L len by (intro nth_equalityI) simp_all
  have lens_take: "map (\<lambda>f. shape f ! 1) (take i fs) = map flat_len (take i preds)" for i
    using lens by (simp add: take_map [symmetric])
  have each: "\<forall>f \<in> set fs. \<exists>K. shape f = [N, K] \<and> 0 < K"
    using L len by (auto simp: in_set_conv_nth)
  have each': "\<forall>f \<in> set fs. \<exists>K. shape f = [N, K] \<and> length (data f) = N * K"
    using L len by (auto simp: in_set_conv_nth)
  from assms(1) len have ne: "fs \<noteq> []" by auto
  define out where "out = \<lparr>shape = [N, sum_list (map (\<lambda>f. shape f ! 1) fs)],
     data = concat (map (\<lambda>outer.
              concat (map (\<lambda>f. take (shape f ! 1) (drop (outer * (shape f ! 1)) (data f))) fs))
              [0..<N])\<rparr>"
  have cat: "nd_concat fs 1 = Inr out"
    unfolding out_def using ne each N by (rule nd_concat_flat)
  have "call ?E (Concat fs 1) t1 = Inr (out, t1 @ [Concat fs 1])"
    using cat by (simp add: call_def nd_env_def)
  with run have res: "concat_preds ?E preds tr = Inr (out, t1 @ [Concat fs 1])"
    by (simp add: concat_preds_def and_then_def)
  have shape_out: "shape out = [N, sum_list (map flat_len preds)]"
    using lens by (simp add: out_def)
  have total: "0 < sum_list (map flat_len preds)"
  proof -
    from assms(1) obtain p ps where "preds = p # ps" by (cases preds) auto
    with L [of 0] show ?thesis by simp
  qed
  have row_len: "length (concat (map (\<lambda>f. take (shape f ! 1) (drop (outer * (shape f ! 1)) (data f))) fs))
                 = sum_list (map flat_len preds)" if "outer < N" for outer
  proof -
    have "map (length \<circ> (\<lambda>f. take (shape f ! 1) (drop (outer * (shape f ! 1)) (data f)))) fs
          = map (\<lambda>f. shape f ! 1) fs"
    proof (rule map_cong [OF refl])
      fix f assume "f \<in> set fs"
      with each' obtain K where K: "shape f = [N, K]" "length (data f) = N * K" by blast
      have "length (take K (drop (outer * K) (data f))) = K"
        using that K(2) by (rule take_drop_row)
      then show "(length \<circ> (\<lambda>f. take (shape f ! 1) (drop (outer * (shape f ! 1)) (data f)))) f
                 = shape f ! 1"
        by (simp add: K(1))
    qed
    then show ?thesis
      by (simp only: length_concat map_map lens)
  qed
  have data_len: "length (data out) = N * sum_list (map flat_len preds)"
  proof -
    have "map length (map (\<lambda>outer.
              concat (map (\<lambda>f. take (shape f ! 1) (drop (outer * (shape f ! 1)) (data f))) fs))
              [0..<N]) = replicate N (sum_list (map flat_len preds))"
      using row_len by (intro replicate_eqI) auto
    then show ?thesis
      by (simp only: out_def ndarray.simps length_concat sum_list_replicate) simp
  qed
  have valid: "valid_nd out"
    using N total data_len by (simp add: valid_nd_def valid_shape_def shape_out)
  have entries: "entry out [n, sum_list (map flat_len (take i preds)) + ((y * w + x) * c + ch)]
                 = entry (preds ! i) [n, ch, y, x]"
    if i: "i < length preds" and s: "shape (preds ! i) = [N, c, h, w]"
      and b: "n < N" "y < h" "x < w" "ch < c" for i c h w n y x ch
  proof -
    note F = is_flat_ofD [OF nth [OF i] s]
    have r: "(y * w + x) * c + ch < shape (fs ! i) ! 1"
      using flat_position_bound [of 0 1 y h x w ch c] b by (simp add: F(1))
    have "entry out [n, sum_list (map flat_len (take i preds)) + ((y * w + x) * c + ch)]
          = data out ! (n * sum_list (map (\<lambda>f. shape f ! 1) fs)
               + (sum_list (map (\<lambda>f. shape f ! 1) (take i fs)) + ((y * w + x) * c + ch)))"
      using lens lens_take [of i] by (simp add: entry_def shape_out)
    also have "\<dots> = data (fs ! i) ! (n * (shape (fs ! i) ! 1) + ((y * w + x) * c + ch))"
      unfolding out_def ndarray.simps using each' b(1) _ r
      by (rule concat_flat_entry) (simp add: len i)
    also have "\<dots> = data (preds ! i) ! (((n * c + ch) * h + y) * w + x)"
      using F(6) [OF b] by (simp add: F(1))
    also have "\<dots> = entry (preds ! i) [n, ch, y, x]"
      by (simp add: entry_def s algebra_simps)
    finally show ?thesis .
  qed
  from res valid shape_out entries show ?thesis
    by blast
qed


theorem concat_preds_layout_witness:
  "map_sum id fst
     (concat_preds (nd_env None toy_library)
        [\<lparr>shape = [2, 2, 1, 2], data = [1, 2, 3, 4, 5, 6, 7, 8]\<rparr>,
         \<lparr>shape = [2, 1, 1, 1], data = [10, 20]\<rparr>] [])
     = Inr \<lparr>shape = [2, 5], data = [1, 3, 2, 4, 10, 5, 7, 6, 8, 20]\<rparr> \<and>
   entry \<lparr>shape = [2, 5], data = [1, 3, 2, 4, 10, 5, 7, 6, 8, 20]\<rparr> [1, 3]
     = entry \<lparr>shape = [2, 2, 1, 2], data = [1, 2, 3, 4, 5, 6, 7, 8]\<rparr> [1, 1, 0, 1] \<and>
   entry \<lparr>shape = [2, 5], data = [1, 3, 2, 4, 10, 5, 7, 6, 8, 20]\<rparr> [1, 4]
     = entry \<lparr>shape = [2, 1, 1, 1], data = [10, 20]\<rparr> [1, 0, 0, 0]"
proof -
  define p1 where "p1 = \<lparr>shape = [2, 2, 1, 2], data = [1, 2, 3, 4, 5, 6, 7, 8]\<rparr>"
  define p2 where "p2 = \<lparr>shape = [2, 1, 1, 1], data = [10, 20]\<rparr>"
  define res where "res = \<lparr>shape = [2, 5], data = [1, 3, 2, 4, 10, 5, 7, 6, 8, 20]\<rparr>"
  have ev: "map_sum id fst (concat_preds (nd_env None toy_library) [p1, p2] []) = Inr res"
    unfolding p1_def p2_def res_def by code_simp
  have ne: "[p1, p2] \<noteq> []" by simp
  have sh: "shape p1 = [2, 2, 1, 2]" "shape p2 = [2, 1, 1, 1]"
    by (simp_all add: p1_def p2_def)
  have hyp: "\<forall>p \<in> set [p1, p2]. valid_nd p \<and> (\<exists>c h w. shape p = [2, c, h, w])"
    by (simp add: valid_nd_def valid_shape_def p1_def p2_def)
  from concat_preds_layout [OF ne hyp, of None toy_library "[]"]
  obtain out where "\<exists>tr'. concat_preds (nd_env None toy_library) [p1, p2] [] = Inr (out, tr') \<and>
           valid_nd out \<and> shape out = [2, sum_list (map flat_len [p1, p2])] \<and>
           (\<forall>i<length [p1, p2]. \<forall>c h w. shape ([p1, p2] ! i) = [2, c, h, w] \<longrightarrow>
              (\<forall>n<2. \<forall>y<h. \<forall>x<w. \<forall>ch<c.
                 entry out [n, sum_list (map flat_len (take i [p1, p2])) + ((y * w + x) * c + ch)]
                   = entry ([p1, p2] ! i) [n, ch, y, x]))" ..
  then obtain tr' where run: "concat_preds (nd_env None toy_library) [p1, p2] [] = Inr (out, tr')"
    and ent: "\<forall>i<length [p1, p2]. \<forall>c h w. shape ([p1, p2] ! i) = [2, c, h, w] \<longrightarrow>
              (\<forall>n<2. \<forall>y<h. \<forall>x<w. \<forall>ch<c.
                 entry out [n, sum_list (map flat_len (take i [p1, p2])) + ((y * w + x) * c + ch)]
                   = entry ([p1, p2] ! i) [n, ch, y, x])"
    by (elim exE conjE)
  from run ev have out: "out = res" by simp
  have fl: "flat_len p1 = 4"
    by (simp add: flat_len_def p1_def)
  from ent [rule_format, of 0 2 1 2 1 0 1 1] have 1: "entry res [1, 3] = entry p1 [1, 1, 0, 1]"
    by (simp add: out sh)
  from ent [rule_format, of 1 1 1 1 1 0 0 0] have 2: "entry res [1, 4] = entry p2 [1, 0, 0, 0]"
    by (simp add: out sh fl)
  from ev 1 2 show ?thesis
    unfolding p1_def p2_def res_def by (intro conjI)
qed

section \<open>The training loops are straight-line iteration\<close>

text \<open>
  The calls a program adds to the transcript, read through \<open>key_of\<close>, follow the
  structure of the program: nothing for a returned value, the key of the call for a
  call, the concatenation for a sequence and for a loop.
\<close>

lemma emits_ret: "emits key (ret v) []"
  by (simp add: emits_def ret_def)

lemma emits_lift: "emits key (lift r) []"
  by (cases r) (simp_all add: emits_def lift_def ret_def raise_def)

lemma emits_call: "emits key (call E c) (case key c of None \<Rightarrow> [] | Some k \<Rightarrow> [k])"
  by (auto simp: emits_def call_def List.map_filter_def split: sum.splits option.splits)

lemma emits_call_scalar: "emits key (call_scalar E c) (case key c of None \<Rightarrow> [] | Some k \<Rightarrow> [k])"
  by (auto simp: emits_def call_scalar_def List.map_filter_def split: sum.splits option.splits)

lemma emits_call_triple: "emits key (call_triple E c) (case key c of None \<Rightarrow> [] | Some k \<Rightarrow> [k])"
  by (auto simp: emits_def call_triple_def List.map_filter_def split: sum.splits option.splits)

lemma emits_call_effect: "emits key (call_effect E c) (case key c of None \<Rightarrow> [] | Some k \<Rightarrow> [k])"
  by (auto simp: emits_def call_effect_def List.map_filter_def split: sum.splits option.splits)

lemma emits_and_then:
  assumes "emits key m ks" "\<And>v. emits key (f v) ks'"
  shows "emits key (and_then m f) (ks @ ks')"
  unfolding emits_def
proof (intro allI impI)
  fix tr v tr'
  assume "and_then m f tr = Inr (v, tr')"
  then obtain u t1 where 1: "m tr = Inr (u, t1)" and 2: "f u t1 = Inr (v, tr')"
    by (auto simp: and_then_def split: sum.splits)
  from assms(1) 1 have "List.map_filter key t1 = List.map_filter key tr @ ks"
    by (simp add: emits_def)
  moreover from assms(2) 2 have "List.map_filter key tr' = List.map_filter key t1 @ ks'"
    by (simp add: emits_def)
  ultimately show "List.map_filter key tr' = List.map_filter key tr @ ks @ ks'"
    by simp
qed

lemma emits_eq: "emits key m ks \<Longrightarrow> ks = ks' \<Longrightarrow> emits key m ks'"
  by simp

lemma emits_case_prod:
  assumes "\<And>a b. emits key (f a b) ks"
  shows "emits key (case p of (a, b) \<Rightarrow> f a b) ks"
  using assms by (cases p) simp

lemma emits_for_each:
  assumes "\<And>i s. emits key (body i s) (g i)"
  shows "emits key (for_each js body s) (concat (map g js))"
proof (induction js arbitrary: s)
  case Nil
  then show ?case by (simp add: emits_ret)
next
  case (Cons j js)
  show ?case
    unfolding for_each.simps list.map concat.simps
    by (rule emits_and_then [OF assms Cons.IH])
qed

lemma map_filter_snoc:
  "List.map_filter key (tr @ [c]) = List.map_filter key tr @ (case key c of None \<Rightarrow> [] | Some k \<Rightarrow> [k])"
  by (simp add: List.map_filter_def split: option.splits)

lemma evaluate_accuracy_batch_emits:
  "emits key_of (evaluate_accuracy_batch E (X, y) s) [KNet X]"
  by (cases s)
     (auto simp: emits_def evaluate_accuracy_batch_def and_then_def call_def call_scalar_def
        ret_def List.map_filter_def split: sum.splits)

lemma train_ch3_batch_emits:
  "emits key_of (train_ch3_batch E batch_size params lr trainer (X, y) s)
     [KNet X, KLoss y, KBackward, (case trainer of None \<Rightarrow> KSgd | Some t \<Rightarrow> KStep)]"
  by (cases s; cases trainer)
     (auto simp: emits_def train_ch3_batch_def and_then_def call_def call_scalar_def
        call_effect_def ret_def List.map_filter_def split: sum.splits option.splits)


lemma evaluate_accuracy_emits:
  "emits key_of (evaluate_accuracy E data_iter) (map (\<lambda>(X, y). KNet X) data_iter)"
proof -
  have "emits key_of (for_each data_iter (evaluate_accuracy_batch E) (0, 0))
          (concat (map (\<lambda>(X, y). [KNet X]) data_iter))"
    by (rule emits_for_each) (auto simp: evaluate_accuracy_batch_emits)
  moreover have "concat (map (\<lambda>(X, y). [KNet X]) data_iter) = map (\<lambda>(X, y). KNet X) data_iter"
    by (induction data_iter) auto
  ultimately have "emits key_of (for_each data_iter (evaluate_accuracy_batch E) (0, 0))
          (map (\<lambda>(X, y). KNet X) data_iter)"
    by simp
  then have "emits key_of (evaluate_accuracy E data_iter) (map (\<lambda>(X, y). KNet X) data_iter @ [])"
    unfolding evaluate_accuracy_def
    by (rule emits_and_then) (auto intro: emits_lift)
  then show ?thesis by simp
qed

lemma train_ch3_epoch_emits:
  "emits key_of (train_ch3_epoch E train_iter test_iter batch_size params lr trainer epoch u)
     (train_ch3_steps train_iter test_iter trainer epoch)"
proof -
  have loop: "emits key_of
      (for_each (train_iter epoch) (train_ch3_batch E batch_size params lr trainer) (0, 0, 0))
      (concat (map (\<lambda>(X, y). [KNet X, KLoss y, KBackward,
                               (case trainer of None \<Rightarrow> KSgd | Some t \<Rightarrow> KStep)])
                 (train_iter epoch)))"
    by (rule emits_for_each) (auto simp: train_ch3_batch_emits)
  have report: "emits key_of
      (and_then (lift (py_div l n)) (\<lambda>loss.
       and_then (lift (py_div a n)) (\<lambda>acc.
       call_effect E (PrintCh3 (epoch + 1) loss acc test_acc))))
      [KReport (epoch + 1)]" for l a n test_acc
    by (auto simp: emits_def and_then_def lift_def ret_def raise_def call_effect_def
        List.map_filter_def split: sum.splits option.splits)
  have rest: "emits key_of
      (and_then (evaluate_accuracy E (test_iter epoch)) (\<lambda>test_acc.
       and_then (lift (py_div l n)) (\<lambda>loss.
       and_then (lift (py_div a n)) (\<lambda>acc.
       call_effect E (PrintCh3 (epoch + 1) loss acc test_acc)))))
      (map (\<lambda>(X, y). KNet X) (test_iter epoch) @ [KReport (epoch + 1)])" for l a n
    by (rule emits_and_then [OF evaluate_accuracy_emits report])
  show ?thesis
    unfolding train_ch3_epoch_def train_ch3_steps_def
    by (rule emits_and_then [OF loop], rule emits_case_prod, rule emits_case_prod, rule rest)
qed

lemma train_ch3_emits:
  "emits key_of (train_ch3 E train_iter test_iter num_epochs batch_size params lr trainer)
     (concat (map (train_ch3_steps train_iter test_iter trainer) [0..<num_epochs]))"
  unfolding train_ch3_def
  by (rule emits_for_each) (rule train_ch3_epoch_emits)

lemma ssd_batch_emits:
  "emits key_of (ssd_batch E trainer batch_size b s)
     [KMove (batch_data b ! 0), KMove (batch_label b ! 0), KNetSSD, KClsLoss, KBboxLoss,
      KBackward, KStep]"
  by (cases s)
     (auto simp: emits_def ssd_batch_def calc_loss_def cls_eval_def bbox_eval_def and_then_def
        call_def call_scalar_def call_effect_def call_triple_def ret_def lift_def raise_def
        py_get_def List.map_filter_def split: sum.splits option.splits if_splits)

lemma ssd_epoch_emits:
  "emits key_of (ssd_epoch E train_iter trainer batch_size epoch u) (ssd_steps train_iter epoch)"
proof -
  have loop: "emits key_of
      (for_each (train_iter epoch) (ssd_batch E trainer batch_size) (0, 0, 0, 0))
      (concat (map (\<lambda>b. [KMove (batch_data b ! 0), KMove (batch_label b ! 0), KNetSSD,
                          KClsLoss, KBboxLoss, KBackward, KStep]) (train_iter epoch)))"
    by (rule emits_for_each) (rule ssd_batch_emits)
  have report: "emits key_of
      (if (epoch + 1) mod 5 = 0
       then and_then (lift (py_div acc_sum n)) (\<lambda>acc.
            and_then (lift (py_div mae_sum m)) (\<lambda>mae.
            and_then (call_scalar E Time) (\<lambda>now.
            call_effect E (PrintSSD (epoch + 1) (1 - acc) mae (now - start)))))
       else ret ())
      (if (epoch + 1) mod 5 = 0 then [KReport (epoch + 1)] else [])" for acc_sum mae_sum n m start
    by (auto simp: emits_def and_then_def lift_def ret_def raise_def call_effect_def
        call_scalar_def List.map_filter_def split: sum.splits option.splits)
  have body: "emits key_of
      (and_then (for_each (train_iter epoch) (ssd_batch E trainer batch_size) (0, 0, 0, 0))
         (\<lambda>(acc_sum, mae_sum, n, m).
           if (epoch + 1) mod 5 = 0
           then and_then (lift (py_div acc_sum n)) (\<lambda>acc.
                and_then (lift (py_div mae_sum m)) (\<lambda>mae.
                and_then (call_scalar E Time) (\<lambda>now.
                call_effect E (PrintSSD (epoch + 1) (1 - acc) mae (now - start)))))
           else ret ()))
      (concat (map (\<lambda>b. [KMove (batch_data b ! 0), KMove (batch_label b ! 0), KNetSSD,
                          KClsLoss, KBboxLoss, KBackward, KStep]) (train_iter epoch))
       @ (if (epoch + 1) mod 5 = 0 then [KReport (epoch + 1)] else []))" for start
    by (rule emits_and_then [OF loop], rule emits_case_prod, rule emits_case_prod,
        rule emits_case_prod, rule report)
  have reset: "emits key_of (call_effect E Reset) [KReset]"
    by (auto simp: emits_def call_effect_def List.map_filter_def split: option.splits)
  have time: "emits key_of (call_scalar E Time) []"
    by (auto simp: emits_def call_scalar_def List.map_filter_def split: sum.splits)
  have "emits key_of (ssd_epoch E train_iter trainer batch_size epoch u)
      ([KReset] @ [] @
       concat (map (\<lambda>b. [KMove (batch_data b ! 0), KMove (batch_label b ! 0), KNetSSD,
                          KClsLoss, KBboxLoss, KBackward, KStep]) (train_iter epoch))
       @ (if (epoch + 1) mod 5 = 0 then [KReport (epoch + 1)] else []))"
    unfolding ssd_epoch_def
    by (rule emits_and_then [OF reset], rule emits_and_then [OF time], rule body)
  then show ?thesis
    by (simp add: ssd_steps_def)
qed

lemma ssd_training_emits:
  "emits key_of (ssd_training E train_iter trainer batch_size)
     (concat (map (ssd_steps train_iter) [0..<20]))"
  unfolding ssd_training_def
  by (rule emits_for_each) (rule ssd_epoch_emits)

text \<open>
  C6, as stated: each training loop visits each batch once and in order, computes the
  loss once, runs backward once and applies one optimizer step, and there is no other
  control flow. \<open>train_ch3\<close> has one more branch: it tests \<open>trainer is None\<close> and calls
  \<open>d2l.sgd\<close> or \<open>trainer.step\<close> accordingly, so two runs on the same batches that differ
  only in \<open>trainer\<close> make different calls.
\<close>

theorem train_ch3_branches_on_trainer_counterexample:
  "map_sum id (keys \<circ> snd)
     (train_ch3 toy_trainer (\<lambda>e. [(1, 2)]) (\<lambda>e. [(5, 6)]) 1 256 None None None [])
   \<noteq> map_sum id (keys \<circ> snd)
     (train_ch3 toy_trainer (\<lambda>e. [(1, 2)]) (\<lambda>e. [(5, 6)]) 1 256 None None (Some ()) [])"
  by code_simp

text \<open>
  C6, amended: each training loop is straight-line iteration. In every epoch
  \<open>train_ch3\<close> visits each batch of the training iterator once, in iterator order, and
  for each batch calls the network once, the loss once, backward once and the optimizer
  once (\<open>d2l.sgd\<close> when \<open>trainer\<close> is \<open>None\<close>, \<open>trainer.step\<close> otherwise); then it calls the
  network once on each test batch and reports the epoch. In each of its twenty epochs
  the detector's loop resets the iterator, visits each batch once, in order, moves its
  data and label to the device, calls the network once, each of the two losses once,
  backward once and \<open>trainer.step\<close> once, and reports every fifth epoch. No batch is
  retried, skipped or reordered, and a run that returns made exactly these calls.
\<close>

theorem training_loops_are_straight_line:
  "(train_ch3 E train_iter test_iter num_epochs batch_size params lr trainer [] = Inr (r, tr) \<longrightarrow>
      keys tr = concat (map (train_ch3_steps train_iter test_iter trainer) [0..<num_epochs])) \<and>
   (ssd_training E ssd_iter ssd_trainer ssd_batch_size [] = Inr (r', tr') \<longrightarrow>
      keys tr' = concat (map (ssd_steps ssd_iter) [0..<20]))"
  using train_ch3_emits [of E train_iter test_iter num_epochs batch_size params lr trainer]
    ssd_training_emits [of E ssd_iter ssd_trainer ssd_batch_size]
  by (simp add: emits_def keys_def List.map_filter_def)

theorem training_loops_are_straight_line_witness:
  "map_sum id (keys \<circ> snd)
     (train_ch3 toy_trainer (\<lambda>e. [(1, 2), (3, 4 :: nat)]) (\<lambda>e. [(5, 6 :: nat)]) 2 256 None None None [])
     = Inr (concat (map (train_ch3_steps (\<lambda>e. [(1, 2), (3, 4 :: nat)]) (\<lambda>e. [(5, 6 :: nat)]) (None :: unit option)) [0..<2])) \<and>
   map_sum id (keys \<circ> snd)
     (ssd_training toy_trainer (\<lambda>e. [\<lparr>batch_data = [e], batch_label = [100 + e]\<rparr>]) () 32 [])
     = Inr (concat (map (ssd_steps (\<lambda>e. [\<lparr>batch_data = [e], batch_label = [100 + e]\<rparr>]))
                     [0..<20]))"
proof -
  let ?run1 = "train_ch3 toy_trainer (\<lambda>e. [(1, 2), (3, 4 :: nat)]) (\<lambda>e. [(5, 6 :: nat)]) 2 256 None None None []"
  let ?run2 = "ssd_training toy_trainer (\<lambda>e. [\<lparr>batch_data = [e], batch_label = [100 + e]\<rparr>]) () 32 []"
  have "map_sum id fst ?run1 = Inr ()"
    by code_simp
  then obtain tr1 where 1: "?run1 = Inr ((), tr1)"
    by (cases ?run1) auto
  have "map_sum id fst ?run2 = Inr ()"
    by code_simp
  then obtain tr2 where 2: "?run2 = Inr ((), tr2)"
    by (cases ?run2) auto
  from training_loops_are_straight_line
         [of toy_trainer "\<lambda>e. [(1, 2), (3, 4 :: nat)]" "\<lambda>e. [(5, 6 :: nat)]" 2 256 None None None "()" tr1
             "\<lambda>e. [\<lparr>batch_data = [e], batch_label = [100 + e]\<rparr>]" "()" 32 "()" tr2] 1 2
  show ?thesis
    by simp
qed

section \<open>Failures of the library reach the caller\<close>





















































end
